theory Spec2Isabelle
  imports Main
begin

section \<open>Strings and the string functions of the Go library\<close>

text \<open>
  A Go string is a sequence of bytes; it is modelled as a \<open>char list\<close>. Indices and
  lengths count bytes, as \<open>len\<close>, \<open>strings.Index\<close> and the index pairs of package
  \<open>regexp\<close> do.
\<close>

definition slice :: "string \<Rightarrow> nat \<Rightarrow> nat \<Rightarrow> string" where
  "slice s a b = take (b - a) (drop a s)"

text \<open>\<open>strings.Index\<close>: byte index of the first occurrence of \<open>sub\<close>, or \<open>-1\<close>.\<close>

primrec Index :: "string \<Rightarrow> string \<Rightarrow> int" where
  "Index [] sub = (if sub = [] then 0 else -1)"
| "Index (x # xs) sub =
     (if take (length sub) (x # xs) = sub then 0
      else (let i = Index xs sub in if i < 0 then -1 else i + 1))"

text \<open>\<open>strings.LastIndex\<close>: byte index of the last occurrence of \<open>sub\<close>, or \<open>-1\<close>.\<close>

primrec LastIndex :: "string \<Rightarrow> string \<Rightarrow> int" where
  "LastIndex [] sub = (if sub = [] then 0 else -1)"
| "LastIndex (x # xs) sub =
     (let j = LastIndex xs sub in
      if 0 \<le> j then j + 1
      else if take (length sub) (x # xs) = sub then 0 else -1)"

text \<open>\<open>strings.Replace(s, old, new, 1)\<close>: the first occurrence of \<open>old\<close> is replaced.\<close>

primrec Replace1 :: "string \<Rightarrow> string \<Rightarrow> string \<Rightarrow> string" where
  "Replace1 [] old new = (if old = [] then new else [])"
| "Replace1 (x # xs) old new =
     (if take (length old) (x # xs) = old then new @ drop (length old) (x # xs)
      else x # Replace1 xs old new)"

text \<open>\<open>fmt.Sprintf(fmt.Sprintf("%%%ds", n), "")\<close>: the empty string padded to width \<open>n\<close>.\<close>

definition pad_blank :: "nat \<Rightarrow> string" where
  "pad_blank n = replicate n (CHR '' '')"

text \<open>
  Modelled from the spec: \<open>SplitLines\<close> is called by the recovery driver but its
  definition is not among the source files. The spec says the text is split on line
  breaks with no normalisation of line endings, so the text is cut at every line feed
  (byte 10), as \<open>strings.Split(text, "\n")\<close> does; the result is never empty.
\<close>

primrec SplitLines :: "string \<Rightarrow> string list" where
  "SplitLines [] = [[]]"
| "SplitLines (x # xs) =
     (if x = CHR 0x0A then [] # SplitLines xs
      else (case SplitLines xs of l # ls \<Rightarrow> (x # l) # ls | [] \<Rightarrow> [[x]]))"

subsection \<open>\<open>strconv.Atoi\<close>\<close>

definition is_digit :: "char \<Rightarrow> bool" where
  "is_digit c = (c \<in> set ''0123456789'')"

definition digit_val :: "char \<Rightarrow> int" where
  "digit_val c = int (of_char c) - 48"

definition dec_val :: "string \<Rightarrow> int" where
  "dec_val ds = foldl (\<lambda>a c. 10 * a + digit_val c) 0 ds"

text \<open>
  \<open>strconv.Atoi\<close>: an optional sign, then one or more decimal digits; \<open>None\<close> is the
  error result, returned for a syntax error and for a value outside the range of \<open>int\<close>
  (64 bits).
\<close>

definition Atoi :: "string \<Rightarrow> int option" where
  "Atoi s =
     (let (neg, ds) =
        (case s of
           [] \<Rightarrow> (False, [])
         | c # r \<Rightarrow> if c = CHR ''-'' then (True, r)
                    else if c = CHR ''+'' then (False, r) else (False, s))
      in if ds = [] \<or> \<not> list_all is_digit ds then None
         else (let v = (if neg then - dec_val ds else dec_val ds)
               in if - (2 ^ 63) \<le> v \<and> v \<le> 2 ^ 63 - 1 then Some v else None))"

section \<open>Regular expressions of package regexp\<close>

text \<open>
  The six patterns of the program use literals, character classes, concatenation,
  alternation, the greedy option \<open>?\<close>, greedy and lazy repetition of a character
  class (\<open>*\<close>, \<open>+\<close>, \<open>*?\<close>, \<open>+?\<close>) and capture groups. Package \<open>regexp\<close> returns
  the match that starts leftmost and, among those, the one a backtracking search finds
  first. The matcher below returns all the ways a pattern can match at a position, in
  the order in which a backtracking search tries them; the first is the match.

  A matcher state is the text still to be read, the byte position reached, and the
  capture groups recorded so far.

  Package \<open>regexp\<close> reads a text rune by rune and reports byte positions; the matcher
  reads byte by byte. The two agree on the patterns of the program: every repetition of
  \<open>.\<close> is followed by an ASCII character or by the end of the pattern, and an ASCII
  byte never lies inside the encoding of a longer rune.
\<close>

datatype re =
    Lit string
  | Cls "char \<Rightarrow> bool"
  | Seq re re
  | Alt re re
  | Opt re
  | Star "char \<Rightarrow> bool"
  | StarL "char \<Rightarrow> bool"
  | Grp nat re

type_synonym caps = "nat \<Rightarrow> (nat \<times> nat) option"
type_synonym mstate = "string \<times> nat \<times> caps"

text \<open>Greedy repetition: one more character first, stopping here second.\<close>

primrec starG :: "(char \<Rightarrow> bool) \<Rightarrow> string \<Rightarrow> nat \<Rightarrow> caps \<Rightarrow> mstate list" where
  "starG P [] p c = [([], p, c)]"
| "starG P (x # xs) p c = (if P x then starG P xs (Suc p) c else []) @ [(x # xs, p, c)]"

text \<open>Lazy repetition: stopping here first, one more character second.\<close>

primrec starL :: "(char \<Rightarrow> bool) \<Rightarrow> string \<Rightarrow> nat \<Rightarrow> caps \<Rightarrow> mstate list" where
  "starL P [] p c = [([], p, c)]"
| "starL P (x # xs) p c = (x # xs, p, c) # (if P x then starL P xs (Suc p) c else [])"

primrec ms :: "re \<Rightarrow> mstate \<Rightarrow> mstate list" where
  "ms (Lit w) st =
     (case st of (r, p, c) \<Rightarrow>
        if take (length w) r = w then [(drop (length w) r, p + length w, c)] else [])"
| "ms (Cls P) st =
     (case st of (r, p, c) \<Rightarrow>
        (case r of [] \<Rightarrow> [] | x # xs \<Rightarrow> if P x then [(xs, Suc p, c)] else []))"
| "ms (Seq a b) st = concat (map (ms b) (ms a st))"
| "ms (Alt a b) st = ms a st @ ms b st"
| "ms (Opt a) st = ms a st @ [st]"
| "ms (Star P) st = (case st of (r, p, c) \<Rightarrow> starG P r p c)"
| "ms (StarL P) st = (case st of (r, p, c) \<Rightarrow> starL P r p c)"
| "ms (Grp i a) st =
     (case st of (r, p, c) \<Rightarrow>
        map (\<lambda>(r', q, c'). (r', q, c'(i \<mapsto> (p, q)))) (ms a (r, p, c)))"

text \<open>
  The unanchored search: the first start position, from the left, at which the pattern
  matches; there, the first match. The result is the start, the end and the groups.
\<close>

primrec search :: "re \<Rightarrow> string \<Rightarrow> nat \<Rightarrow> (nat \<times> nat \<times> caps) option" where
  "search r [] p =
     (case ms r ([], p, Map.empty) of [] \<Rightarrow> None | (_, q, c) # _ \<Rightarrow> Some (p, q, c))"
| "search r (x # xs) p =
     (case ms r (x # xs, p, Map.empty) of
        [] \<Rightarrow> search r xs (Suc p)
      | (_, q, c) # _ \<Rightarrow> Some (p, q, c))"

text \<open>\<open>FindStringIndex\<close>: start and end of the leftmost match, \<open>None\<close> for \<open>nil\<close>.\<close>

definition FindStringIndex :: "re \<Rightarrow> string \<Rightarrow> (nat \<times> nat) option" where
  "FindStringIndex r s = map_option (\<lambda>(a, b, c). (a, b)) (search r s 0)"

text \<open>
  \<open>FindStringSubmatch\<close> of a pattern with \<open>n\<close> groups: the matched text followed by
  the text of groups \<open>1..n\<close>, a group that took no part being the empty string.
\<close>

definition group_text :: "string \<Rightarrow> caps \<Rightarrow> nat \<Rightarrow> string" where
  "group_text s c i = (case c i of None \<Rightarrow> [] | Some (a, b) \<Rightarrow> slice s a b)"

definition FindStringSubmatch :: "re \<Rightarrow> nat \<Rightarrow> string \<Rightarrow> string list option" where
  "FindStringSubmatch r n s =
     map_option (\<lambda>(a, b, c). slice s a b # map (group_text s c) [1..<Suc n]) (search r s 0)"

definition MatchString :: "re \<Rightarrow> string \<Rightarrow> bool" where
  "MatchString r s = (search r s 0 \<noteq> None)"

subsection \<open>The character classes and the patterns of the program\<close>

definition any_char :: "char \<Rightarrow> bool" where
  \<comment> \<open>\<open>.\<close> matches everything but a line feed\<close>
  "any_char c = (c \<noteq> CHR 0x0A)"

definition is_space :: "char \<Rightarrow> bool" where
  \<comment> \<open>\<open>\s\<close> is tab, line feed, form feed, carriage return, space\<close>
  "is_space c = (c \<in> {CHR 0x09, CHR 0x0A, CHR 0x0C, CHR 0x0D, CHR '' ''})"

definition is_quote :: "char \<Rightarrow> bool" where
  "is_quote c = (c = CHR 0x27 \<or> c = CHR 0x22)"

abbreviation Plus :: "(char \<Rightarrow> bool) \<Rightarrow> re" where
  "Plus P \<equiv> Seq (Cls P) (Star P)"

abbreviation PlusL :: "(char \<Rightarrow> bool) \<Rightarrow> re" where
  "PlusL P \<equiv> Seq (Cls P) (StarL P)"

text \<open>\<^verbatim>\<open>template: (.*?):((\d+):)?(\d+): (.*)\<close>\<close>

definition templateErrorRegex :: re where
  "templateErrorRegex =
     Seq (Lit ''template: '')
    (Seq (Grp 1 (StarL any_char))
    (Seq (Lit '':'')
    (Seq (Opt (Grp 2 (Seq (Grp 3 (Plus is_digit)) (Lit '':''))))
    (Seq (Grp 4 (Plus is_digit))
    (Seq (Lit '': '')
         (Grp 5 (Star any_char)))))))"

text \<open>\<^verbatim>\<open>['"](.+)['"]\<close>\<close>

definition findTokenRegex :: re where
  "findTokenRegex = Seq (Cls is_quote) (Seq (Grp 1 (Plus any_char)) (Cls is_quote))"

text \<open>\<^verbatim>\<open><(\..+?)>\<close>\<close>

definition findExprRegex :: re where
  "findExprRegex = Seq (Lit ''<'') (Seq (Grp 1 (Seq (Lit ''.'') (PlusL any_char))) (Lit ''>''))"

text \<open>\<^verbatim>\<open>function "(.+)" not defined\<close>\<close>

definition functionNotFoundRegex :: re where
  "functionNotFoundRegex =
     Seq (Lit (''function '' @ [CHR 0x22]))
    (Seq (Grp 1 (Plus any_char))
         (Lit (CHR 0x22 # '' not defined'')))"

text \<open>\<^verbatim>\<open>missing value for command\<close>\<close>

definition missingValueForCommandRegex :: re where
  "missingValueForCommandRegex = Lit ''missing value for command''"

text \<open>\<^verbatim>\<open>{{((-?\s*?)|(\s*?-?))}}\<close>\<close>

definition firstEmptyCommandRegex :: re where
  "firstEmptyCommandRegex =
     Seq (Lit ''{{'')
    (Seq (Grp 1 (Alt (Grp 2 (Seq (Opt (Lit ''-'')) (StarL is_space)))
                     (Grp 3 (Seq (StarL is_space) (Opt (Lit ''-''))))))
         (Lit ''}}''))"

section \<open>Diagnostics\<close>

datatype ErrorLevel = misunderstoodError | parseErrorLevel | execErrorLevel

record templateError =
  Line :: int
  Char :: int
  Description :: string
  Level :: ErrorLevel

definition maxFixes :: int where
  "maxFixes = 10"

text \<open>
  \<open>createTemplateError\<close>. The argument is the text of the error, \<open>err.Error()\<close>.
  \<open>FindStringSubmatch\<close> returns \<open>nil\<close> (length 0) or the six texts of the match.
  The subtraction \<open>line - 1\<close> is written on unbounded integers: the text converted is
  a run of digits (lemma \<open>group_digits\<close>), so the number is not negative and the
  subtraction does not wrap around.
\<close>

definition createTemplateError :: "string \<Rightarrow> ErrorLevel \<Rightarrow> templateError" where
  "createTemplateError err level =
     (let matches = (case FindStringSubmatch templateErrorRegex 5 err of
                       None \<Rightarrow> [] | Some m \<Rightarrow> m)
      in if length matches \<noteq> 6
         then \<lparr>Line = -1, Char = -1, Description = err, Level = misunderstoodError\<rparr>
         else
           (let (lineIndex, char) =
                  (if matches ! 3 \<noteq> []
                   then (3, case Atoi (matches ! 4) of None \<Rightarrow> -1 | Some c \<Rightarrow> c)
                   else (4, -1));
                line = (case Atoi (matches ! lineIndex) of None \<Rightarrow> -1 | Some l \<Rightarrow> l - 1)
            in \<lparr>Line = line, Char = char, Description = matches ! 5, Level = level\<rparr>))"

section \<open>The template engine\<close>

text \<open>
  The engine of package \<open>text/template\<close> is a collaborator of the program; it is a
  parameter of the model. \<open>Parse\<close> returns the text of the error or the parsed
  template. \<open>Funcs\<close> registers a function under a name; it panics on a name the engine
  rejects, which is the result \<open>None\<close>. \<open>Execute\<close> returns what it wrote and the text
  of the error, if any.
\<close>

record ('t, 'd) engine =
  Parse :: "'t \<Rightarrow> string \<Rightarrow> string + 't"
  Funcs :: "'t \<Rightarrow> string \<Rightarrow> 't option"
  Execute :: "'t \<Rightarrow> 'd \<Rightarrow> string \<times> string option"
  Name :: "'t \<Rightarrow> string"

section \<open>The recovery driver\<close>

text \<open>A run-time panic of the program is a value of the model.\<close>

datatype panic = IndexOutOfRange | BadFunctionName

text \<open>\<open>lines[i]\<close> for an \<open>int\<close> index: a panic outside \<open>0 \<le> i < len(lines)\<close>.\<close>

definition index_line :: "string list \<Rightarrow> int \<Rightarrow> panic + string" where
  "index_line lines i =
     (if 0 \<le> i \<and> i < int (length lines) then Inr (lines ! nat i) else Inl IndexOutOfRange)"

text \<open>
  Lines 75 to 87 of \<open>parseInternal\<close>: when the diagnostic has no character, the text
  between the first and the last byte of the match of \<open>findTokenRegex\<close> in the
  description is looked up in the line of the diagnostic.
\<close>

definition locateToken :: "string list \<Rightarrow> templateError \<Rightarrow> panic + templateError" where
  "locateToken lines tplErr =
     (if Char tplErr = -1 then
        (case FindStringIndex findTokenRegex (Description tplErr) of
           None \<Rightarrow> Inr tplErr
         | Some (a, b) \<Rightarrow>
             (let token = slice (Description tplErr) (a + 1) (b - 1) in
              case index_line lines (Line tplErr) of
                Inl e \<Rightarrow> Inl e
              | Inr l \<Rightarrow>
                  (let lastChar = LastIndex l token; firstChar = Index l token in
                   if lastChar = firstChar then Inr (tplErr\<lparr>Char := firstChar\<rparr>)
                   else Inr tplErr)))
      else Inr tplErr)"

text \<open>
  Lines 105 and 107: the text in which the first occurrence of the matched span is
  replaced by as many blanks as the span has bytes.
\<close>

definition blankOut :: "string \<Rightarrow> string \<Rightarrow> string" where
  "blankOut text m = Replace1 text m (pad_blank (length m))"

function parseInternal ::
  "('t, 'd) engine \<Rightarrow> string \<Rightarrow> 't \<Rightarrow> int \<Rightarrow> panic + ('t \<times> templateError list)" where
  "parseInternal E text baseTpl depth =
     (let lines = SplitLines text in
      if depth \<ge> maxFixes then Inr (baseTpl, [])
      else
        (case Parse E baseTpl text of
           Inr t \<Rightarrow> Inr (t, [])
         | Inl err \<Rightarrow>
             (let tplErr0 = createTemplateError err parseErrorLevel in
              if Level tplErr0 \<noteq> misunderstoodError then
                (case locateToken lines tplErr0 of
                   Inl e \<Rightarrow> Inl e
                 | Inr tplErr \<Rightarrow>
                     (case FindStringSubmatch functionNotFoundRegex 1 (Description tplErr) of
                        Some badFunctionMatch \<Rightarrow>
                          (case Funcs E baseTpl (badFunctionMatch ! 1) of
                             None \<Rightarrow> Inl BadFunctionName
                           | Some baseTpl' \<Rightarrow>
                               (case parseInternal E text baseTpl' (depth + 1) of
                                  Inl e \<Rightarrow> Inl e
                                | Inr (t, parseTplErrs) \<Rightarrow> Inr (t, tplErr # parseTplErrs)))
                      | None \<Rightarrow>
                          (if MatchString missingValueForCommandRegex (Description tplErr) then
                             (case FindStringSubmatch firstEmptyCommandRegex 3 text of
                                Some matches \<Rightarrow>
                                  (case index_line (SplitLines text) (Line tplErr) of
                                     Inl e \<Rightarrow> Inl e
                                   | Inr line \<Rightarrow>
                                       (let tplErr' =
                                              (case FindStringIndex firstEmptyCommandRegex line of
                                                 Some (a, b) \<Rightarrow> tplErr\<lparr>Char := int a\<rparr>
                                               | None \<Rightarrow> tplErr)
                                        in case parseInternal E (blankOut text (matches ! 0))
                                                  baseTpl (depth + 1) of
                                             Inl e \<Rightarrow> Inl e
                                           | Inr (t, parseTplErrs) \<Rightarrow>
                                               Inr (t, tplErr' # parseTplErrs)))
                              | None \<Rightarrow> Inr (baseTpl, [tplErr]))
                           else Inr (baseTpl, [tplErr]))))
              else Inr (baseTpl, [tplErr0]))))"
  by pat_completeness auto
termination
  by (relation "measure (\<lambda>(E, text, baseTpl, depth). nat (maxFixes - depth))") auto

definition parse :: "('t, 'd) engine \<Rightarrow> string \<Rightarrow> 't \<Rightarrow> panic + ('t \<times> templateError list)" where
  "parse E text baseTpl = parseInternal E text baseTpl 0"

section \<open>The execution translator\<close>

definition emptyTemplateMessage :: "string \<Rightarrow> string" where
  \<comment> \<open>\<^verbatim>\<open>fmt.Sprintf(`template: %s: "%s" is an incomplete or empty template`, n, n)\<close>\<close>
  "emptyTemplateMessage n =
     ''template: '' @ n @ '': '' @ [CHR 0x22] @ n @ [CHR 0x22] @
     '' is an incomplete or empty template''"

text \<open>
  \<open>exec\<close> returns the diagnostics; the model also returns the buffer after the
  execution and the lines printed on the standard output.
\<close>

definition exec ::
  "('t, 'd) engine \<Rightarrow> 't \<Rightarrow> 'd \<Rightarrow> string \<Rightarrow> templateError list \<times> string \<times> string list" where
  "exec E t data buf =
     (case Execute E t data of
        (out, None) \<Rightarrow> ([], buf @ out, [])
      | (out, Some err) \<Rightarrow>
          if err = emptyTemplateMessage (Name E t) then ([], buf @ out, [])
          else
            (let tplErr = createTemplateError err execErrorLevel;
                 matches = (case FindStringSubmatch findExprRegex 1 (Description tplErr) of
                              None \<Rightarrow> [] | Some m \<Rightarrow> m)
             in ([tplErr], buf @ out, if length matches = 2 then [matches ! 1] else [])))"

section \<open>A small engine for concrete runs\<close>

text \<open>
  A template of the small engine has a name, the registered function names and, once
  parsed, its text. The engine is given by the function that decides, from the
  registered names and the text, whether parsing fails and with which message.
\<close>

record tpl =
  tname :: string
  tfuncs :: "string list"
  tbody :: "string option"

definition goodName :: "string \<Rightarrow> bool" where
  "goodName n =
     (n \<noteq> [] \<and> \<not> is_digit (hd n) \<and>
      list_all (\<lambda>c. c \<in> set ''abcdefghijklmnopqrstuvwxyz'' \<or>
                     c \<in> set ''ABCDEFGHIJKLMNOPQRSTUVWXYZ'' \<or>
                     c = CHR ''_'' \<or> is_digit c) n)"

definition scripted ::
  "(string list \<Rightarrow> string \<Rightarrow> string option) \<Rightarrow> (tpl \<Rightarrow> string option) \<Rightarrow> (tpl, unit) engine" where
  "scripted perr xerr =
     \<lparr>Parse = (\<lambda>t text. case perr (tfuncs t) text of
                          Some m \<Rightarrow> Inl m
                        | None \<Rightarrow> Inr (t\<lparr>tbody := Some text\<rparr>)),
      Funcs = (\<lambda>t n. if goodName n then Some (t\<lparr>tfuncs := tfuncs t @ [n]\<rparr>) else None),
      Execute = (\<lambda>t d. ([], xerr t)),
      Name = tname\<rparr>"

definition newTemplate :: "string \<Rightarrow> tpl" where
  "newTemplate n = \<lparr>tname = n, tfuncs = [], tbody = None\<rparr>"

text \<open>
  The message of the engine for the first of the functions \<open>need\<close> that is not
  registered, reported on line 1 of the template \<open>input template\<close>.
\<close>

definition undefinedFunction :: "string list \<Rightarrow> string list \<Rightarrow> string \<Rightarrow> string option" where
  "undefinedFunction need fs text =
     (case filter (\<lambda>n. n \<notin> set fs) need of
        [] \<Rightarrow> None
      | n # _ \<Rightarrow> Some (''template: input template:1: function '' @ [CHR 0x22] @ n @ [CHR 0x22]
                       @ '' not defined''))"

section \<open>The language of a pattern\<close>

text \<open>
  The set of texts a pattern matches, whatever the order of the search. The grammar of
  the engine's messages, \<open>template: <name>:[<line>:]<number>: <description>\<close>, is the
  language of \<open>templateErrorRegex\<close>; a message matches the grammar when one of its
  pieces is in that language, as the search is not anchored.
\<close>

primrec lang :: "re \<Rightarrow> string set" where
  "lang (Lit w) = {w}"
| "lang (Cls P) = {[x] | x. P x}"
| "lang (Seq a b) = {u @ v | u v. u \<in> lang a \<and> v \<in> lang b}"
| "lang (Alt a b) = lang a \<union> lang b"
| "lang (Opt a) = insert [] (lang a)"
| "lang (Star P) = {w. list_all P w}"
| "lang (StarL P) = {w. list_all P w}"
| "lang (Grp i a) = lang a"

definition matchesGrammar :: "re \<Rightarrow> string \<Rightarrow> bool" where
  "matchesGrammar a s = (\<exists>u w v. s = u @ w @ v \<and> w \<in> lang a)"

section \<open>Texts and messages of the concrete runs\<close>

text \<open>
  An empty action that spans a line break, followed by a call of the undefined function
  \<open>foo\<close> on the third line. The engine reports the empty action on line 2 (where its
  closing delimiter stands); for every other text it reports \<open>foo\<close> on line 2 until a
  function of that name is registered.
\<close>

definition mergedLinesText :: string where
  "mergedLinesText = ''{{'' @ [CHR 0x0A] @ ''}}'' @ [CHR 0x0A] @ ''{{foo}}''"

definition mergedLinesEngine :: "(tpl, unit) engine" where
  "mergedLinesEngine =
     scripted
       (\<lambda>fs text.
          if text = mergedLinesText
          then Some ''template: input template:2: missing value for command''
          else if ''foo'' \<notin> set fs
          then Some (''template: input template:2: function '' @ [CHR 0x22] @ ''foo'' @ [CHR 0x22]
                     @ '' not defined'')
          else None)
       (\<lambda>t. None)"

text \<open>Messages in the grammar whose line is not a line of the text, or whose function name
  the engine does not accept.\<close>

definition lineBeyondText :: string where
  "lineBeyondText =
     ''template: input template:3: unexpected '' @ [CHR 0x22] @ ''x'' @ [CHR 0x22] @ '' in command''"

definition lineZero :: string where
  "lineZero = ''template: input template:0: missing value for command''"

definition badStubName :: string where
  "badStubName =
     ''template: input template:1: function '' @ [CHR 0x22] @ ''a b'' @ [CHR 0x22] @ '' not defined''"

section \<open>The groups and the parts of a pattern\<close>

text \<open>The texts a group of a pattern can hold: the language of the body of the group.\<close>

primrec glang :: "nat \<Rightarrow> re \<Rightarrow> string set" where
  "glang i (Lit w) = {}"
| "glang i (Cls P) = {}"
| "glang i (Seq a b) = glang i a \<union> glang i b"
| "glang i (Alt a b) = glang i a \<union> glang i b"
| "glang i (Opt a) = glang i a"
| "glang i (Star P) = {}"
| "glang i (StarL P) = {}"
| "glang i (Grp j a) = (if i = j then lang a else {}) \<union> glang i a"

text \<open>
  The pattern \<open>templateErrorRegex\<close> from its description, its last number, its
  optional line and its name on.
\<close>

definition descriptionPart :: re where
  "descriptionPart = Seq (Lit '': '') (Grp 5 (Star any_char))"

definition numberPart :: re where
  "numberPart = Seq (Grp 4 (Plus is_digit)) descriptionPart"

definition linePart :: re where
  "linePart = Seq (Opt (Grp 2 (Seq (Grp 3 (Plus is_digit)) (Lit '':'')))) numberPart"

definition namePart :: re where
  "namePart = Seq (Grp 1 (StarL any_char)) (Seq (Lit '':'') linePart)"

section \<open>Occurrences of a token in a line\<close>

text \<open>The byte indices at which \<open>sub\<close> occurs in a text, in increasing order.\<close>

primrec occurrences :: "string \<Rightarrow> string \<Rightarrow> nat list" where
  "occurrences [] sub = (if sub = [] then [0] else [])"
| "occurrences (x # xs) sub =
     (if take (length sub) (x # xs) = sub then [0] else []) @ map Suc (occurrences xs sub)"

text \<open>
  The token of the spec: the first text between two quotes, matched without greed, that
  is, the pattern \<^verbatim>\<open>['"](.+?)['"]\<close>. The pattern of the program is
  \<open>findTokenRegex\<close>, which is greedy.
\<close>

definition nonGreedyTokenRegex :: re where
  "nonGreedyTokenRegex = Seq (Cls is_quote) (Seq (Grp 1 (PlusL any_char)) (Cls is_quote))"

text \<open>A description with two quoted spans.\<close>

definition twoQuotedSpans :: string where
  "twoQuotedSpans =
     ''unexpected '' @ [CHR 0x22] @ ''a'' @ [CHR 0x22] @ '' before '' @ [CHR 0x22] @ ''b'' @ [CHR 0x22]"

text \<open>The message of the engine with that description, on line 1.\<close>

definition twoQuotedSpansMessage :: string where
  "twoQuotedSpansMessage = ''template: input template:1: '' @ twoQuotedSpans"

section \<open>Undefined functions\<close>

text \<open>
  The message of the engine for a call of the undefined function \<open>n\<close> on line \<open>l\<close> of
  the template \<open>name\<close>, and its description.
\<close>

definition undefinedFunctionDescription :: "string \<Rightarrow> string" where
  "undefinedFunctionDescription n = ''function '' @ [CHR 0x22] @ n @ [CHR 0x22] @ '' not defined''"

definition undefinedFunctionMessage :: "string \<Rightarrow> string \<Rightarrow> string \<Rightarrow> string" where
  "undefinedFunctionMessage name l n =
     ''template: '' @ name @ '':'' @ l @ '': '' @ undefinedFunctionDescription n"

text \<open>
  A text with undefined-function errors, each cured by one function stub: parsed against
  the template \<open>t\<close>, the text fails with the message for the first pair (line, name) of
  the list, the line being a line of the text; the engine accepts the name, and against
  the template with the stub registered the text fails in the same way with the rest of
  the list. The template \<open>t'\<close> is the one reached when all stubs are registered.
\<close>

primrec undefinedFunctions ::
  "('t, 'd) engine \<Rightarrow> string \<Rightarrow> string \<Rightarrow> 't \<Rightarrow> (string \<times> string) list \<Rightarrow> 't \<Rightarrow> bool" where
  "undefinedFunctions E text name t [] t' = (t' = t)"
| "undefinedFunctions E text name t (e # es) t' =
     (case e of (l, n) \<Rightarrow>
        Parse E t text = Inl (undefinedFunctionMessage name l n) \<and>
        l \<noteq> [] \<and> list_all is_digit l \<and>
        1 \<le> dec_val l \<and> dec_val l \<le> int (length (SplitLines text)) \<and> dec_val l < 2 ^ 63 \<and>
        n \<noteq> [] \<and> list_all any_char n \<and>
        (case Funcs E t n of
           None \<Rightarrow> False
         | Some t1 \<Rightarrow> undefinedFunctions E text name t1 es t'))"

text \<open>The diagnostic of the recovery driver for such an error.\<close>

definition stubDiagnostic :: "string \<Rightarrow> string \<times> string \<Rightarrow> templateError" where
  "stubDiagnostic text e =
     (case e of (l, n) \<Rightarrow>
        \<lparr>Line = dec_val l - 1,
         Char = (case occurrences (SplitLines text ! nat (dec_val l - 1)) n of
                   [i] \<Rightarrow> int i | _ \<Rightarrow> -1),
         Description = undefinedFunctionDescription n,
         Level = parseErrorLevel\<rparr>)"

text \<open>Ten calls of undefined functions on one line, and nine.\<close>

definition tenNames :: "string list" where
  "tenNames = [''a'', ''b'', ''c'', ''d'', ''e'', ''f'', ''g'', ''h'', ''i'', ''j'']"

definition tenCalls :: string where
  "tenCalls = ''{{a}}{{b}}{{c}}{{d}}{{e}}{{f}}{{g}}{{h}}{{i}}{{j}}''"

definition nineCalls :: string where
  "nineCalls = ''{{a}}{{b}}{{c}}{{d}}{{e}}{{f}}{{g}}{{h}}{{i}}''"

definition callsEngine :: "string list \<Rightarrow> (tpl, unit) engine" where
  "callsEngine need = scripted (undefinedFunction need) (\<lambda>t. None)"

section \<open>The matcher finds the language\<close>

lemma starG_sound:
  "(r', q, c') \<in> set (starG P r p c) \<Longrightarrow>
   \<exists>w. r = w @ r' \<and> q = p + length w \<and> list_all P w \<and> c' = c"
proof (induction r arbitrary: p)
  case Nil
  then show ?case by simp
next
  case (Cons x xs)
  show ?case
  proof (cases "(r', q, c') = (x # xs, p, c)")
    case True
    then show ?thesis by simp
  next
    case False
    with Cons.prems have px: "P x" and mem: "(r', q, c') \<in> set (starG P xs (Suc p) c)"
      by (auto split: if_splits)
    from Cons.IH [OF mem] obtain w where
      "xs = w @ r'" "q = Suc p + length w" "list_all P w" "c' = c" by blast
    with px have "x # xs = (x # w) @ r' \<and> q = p + length (x # w) \<and> list_all P (x # w) \<and> c' = c"
      by simp
    then show ?thesis by blast
  qed
qed

lemma starL_sound:
  "(r', q, c') \<in> set (starL P r p c) \<Longrightarrow>
   \<exists>w. r = w @ r' \<and> q = p + length w \<and> list_all P w \<and> c' = c"
proof (induction r arbitrary: p)
  case Nil
  then show ?case by simp
next
  case (Cons x xs)
  show ?case
  proof (cases "(r', q, c') = (x # xs, p, c)")
    case True
    then show ?thesis by simp
  next
    case False
    with Cons.prems have px: "P x" and mem: "(r', q, c') \<in> set (starL P xs (Suc p) c)"
      by (auto split: if_splits)
    from Cons.IH [OF mem] obtain w where
      "xs = w @ r'" "q = Suc p + length w" "list_all P w" "c' = c" by blast
    with px have "x # xs = (x # w) @ r' \<and> q = p + length (x # w) \<and> list_all P (x # w) \<and> c' = c"
      by simp
    then show ?thesis by blast
  qed
qed

lemma starG_complete: "list_all P w \<Longrightarrow> (r', p + length w, c) \<in> set (starG P (w @ r') p c)"
proof (induction w arbitrary: p)
  case Nil
  then show ?case by (cases r') simp_all
next
  case (Cons x w)
  from Cons.prems have "list_all P w" and px: "P x" by simp_all
  from Cons.IH [OF this(1), of "Suc p"] px show ?case by simp
qed

lemma starL_complete: "list_all P w \<Longrightarrow> (r', p + length w, c) \<in> set (starL P (w @ r') p c)"
proof (induction w arbitrary: p)
  case Nil
  then show ?case by (cases r') simp_all
next
  case (Cons x w)
  from Cons.prems have "list_all P w" and px: "P x" by simp_all
  from Cons.IH [OF this(1), of "Suc p"] px show ?case by simp
qed

lemma ms_sound:
  "(r', q, c') \<in> set (ms a (r, p, c)) \<Longrightarrow> \<exists>w. r = w @ r' \<and> q = p + length w \<and> w \<in> lang a"
proof (induction a arbitrary: r p c r' q c')
  case (Lit w)
  then have "take (length w) r = w" "r' = drop (length w) r" "q = p + length w"
    by (auto split: if_splits)
  then have "r = w @ r'" by (metis append_take_drop_id)
  with \<open>q = p + length w\<close> show ?case by simp
next
  case (Cls P)
  then show ?case by (auto split: list.splits if_splits)
next
  case (Seq a b)
  from Seq.prems obtain r1 q1 c1 where
    m1: "(r1, q1, c1) \<in> set (ms a (r, p, c))" and m2: "(r', q, c') \<in> set (ms b (r1, q1, c1))"
    by auto
  from Seq.IH(1) [OF m1] obtain u where u: "r = u @ r1" "q1 = p + length u" "u \<in> lang a" by blast
  from Seq.IH(2) [OF m2] obtain v where v: "r1 = v @ r'" "q = q1 + length v" "v \<in> lang b" by blast
  from u v have "r = (u @ v) @ r' \<and> q = p + length (u @ v) \<and> u @ v \<in> lang (Seq a b)"
    by auto
  then show ?case by blast
next
  case (Alt a b)
  from Alt.prems have "(r', q, c') \<in> set (ms a (r, p, c)) \<or> (r', q, c') \<in> set (ms b (r, p, c))"
    by simp
  then show ?case
  proof
    assume "(r', q, c') \<in> set (ms a (r, p, c))"
    from Alt.IH(1) [OF this] show ?thesis by auto
  next
    assume "(r', q, c') \<in> set (ms b (r, p, c))"
    from Alt.IH(2) [OF this] show ?thesis by auto
  qed
next
  case (Opt a)
  show ?case
  proof (cases "(r', q, c') \<in> set (ms a (r, p, c))")
    case True
    from Opt.IH [OF this] show ?thesis by auto
  next
    case False
    with Opt.prems have "r' = r" "q = p" by auto
    then show ?thesis by simp
  qed
next
  case (Star P)
  then show ?case using starG_sound [of r' q c' P r p c] by auto
next
  case (StarL P)
  then show ?case using starL_sound [of r' q c' P r p c] by auto
next
  case (Grp i a)
  from Grp.prems obtain c0 where "(r', q, c0) \<in> set (ms a (r, p, c))" by auto
  from Grp.IH [OF this] show ?case by simp
qed

lemma ms_complete:
  "w \<in> lang a \<Longrightarrow> \<exists>c'. (r', p + length w, c') \<in> set (ms a (w @ r', p, c))"
proof (induction a arbitrary: w r' p c)
  case (Lit x)
  then show ?case by simp
next
  case (Cls P)
  then show ?case by auto
next
  case (Seq a b)
  from Seq.prems obtain u v where w: "w = u @ v" and u: "u \<in> lang a" and v: "v \<in> lang b"
    by auto
  from Seq.IH(1) [OF u, of "v @ r'" p c] obtain c1 where
    m1: "(v @ r', p + length u, c1) \<in> set (ms a (u @ v @ r', p, c))" by blast
  from Seq.IH(2) [OF v, of r' "p + length u" c1] obtain c2 where
    m2: "(r', p + length u + length v, c2) \<in> set (ms b (v @ r', p + length u, c1))" by blast
  from m1 m2 have "\<exists>st \<in> set (ms a (u @ v @ r', p, c)).
      (r', p + length u + length v, c2) \<in> set (ms b st)" by blast
  then have "(r', p + length w, c2) \<in> set (ms (Seq a b) (w @ r', p, c))"
    by (simp add: w add.assoc)
  then show ?case by blast
next
  case (Alt a b)
  from Alt.prems have "w \<in> lang a \<or> w \<in> lang b" by simp
  then show ?case
  proof
    assume "w \<in> lang a"
    from Alt.IH(1) [OF this, of r' p c] show ?thesis by auto
  next
    assume "w \<in> lang b"
    from Alt.IH(2) [OF this, of r' p c] show ?thesis by auto
  qed
next
  case (Opt a)
  show ?case
  proof (cases "w \<in> lang a")
    case True
    from Opt.IH [OF this, of r' p c] show ?thesis by auto
  next
    case False
    with Opt.prems have "w = []" by simp
    then have "(r', p + length w, c) \<in> set (ms (Opt a) (w @ r', p, c))" by simp
    then show ?thesis by blast
  qed
next
  case (Star P)
  then show ?case using starG_complete [of P w r' p c] by auto
next
  case (StarL P)
  then show ?case using starL_complete [of P w r' p c] by auto
next
  case (Grp i a)
  then have "w \<in> lang a" by simp
  from Grp.IH [OF this, of r' p c] obtain c0 where
    "(r', p + length w, c0) \<in> set (ms a (w @ r', p, c))" by blast
  then have "(r', p + length w, c0(i \<mapsto> (p, p + length w))) \<in> set (ms (Grp i a) (w @ r', p, c))"
    by force
  then show ?case by blast
qed

lemma search_None_iff:
  "search a s p = None \<longleftrightarrow> (\<forall>k \<le> length s. ms a (drop k s, p + k, Map.empty) = [])"
proof (induction s arbitrary: p)
  case Nil
  then show ?case by (auto split: list.splits)
next
  case (Cons x xs)
  show ?case
  proof (cases "ms a (x # xs, p, Map.empty)")
    case Nil
    have "(\<forall>k \<le> length (x # xs). ms a (drop k (x # xs), p + k, Map.empty) = []) \<longleftrightarrow>
          (\<forall>k \<le> length xs. ms a (drop k xs, Suc p + k, Map.empty) = [])"
    proof
      assume h: "\<forall>k \<le> length (x # xs). ms a (drop k (x # xs), p + k, Map.empty) = []"
      show "\<forall>k \<le> length xs. ms a (drop k xs, Suc p + k, Map.empty) = []"
      proof (intro allI impI)
        fix k assume "k \<le> length xs"
        then have "Suc k \<le> length (x # xs)" by simp
        with h have "ms a (drop (Suc k) (x # xs), p + Suc k, Map.empty) = []"
          by blast
        then show "ms a (drop k xs, Suc p + k, Map.empty) = []" by simp
      qed
    next
      assume h: "\<forall>k \<le> length xs. ms a (drop k xs, Suc p + k, Map.empty) = []"
      show "\<forall>k \<le> length (x # xs). ms a (drop k (x # xs), p + k, Map.empty) = []"
      proof (intro allI impI)
        fix k assume k: "k \<le> length (x # xs)"
        show "ms a (drop k (x # xs), p + k, Map.empty) = []"
        proof (cases k)
          case 0
          with Nil show ?thesis by simp
        next
          case (Suc j)
          with k h have "ms a (drop j xs, Suc p + j, Map.empty) = []" by simp
          with Suc show ?thesis by simp
        qed
      qed
    qed
    with Nil Cons.IH [of "Suc p"] show ?thesis by simp
  next
    case (Cons y ys)
    then have "search a (x # xs) p \<noteq> None" by (auto split: prod.splits)
    moreover from Cons have "\<not> (\<forall>k \<le> length (x # xs). ms a (drop k (x # xs), p + k, Map.empty) = [])"
      by (auto intro: exI [of _ 0])
    ultimately show ?thesis by blast
  qed
qed

text \<open>A pattern is found in a text iff a piece of the text is in its language.\<close>

lemma search_None_lang: "search a s 0 = None \<longleftrightarrow> \<not> matchesGrammar a s"
  unfolding matchesGrammar_def
proof
  assume n: "search a s 0 = None"
  show "\<not> (\<exists>u w v. s = u @ w @ v \<and> w \<in> lang a)"
  proof
    assume "\<exists>u w v. s = u @ w @ v \<and> w \<in> lang a"
    then obtain u w v where s: "s = u @ w @ v" and w: "w \<in> lang a" by blast
    from ms_complete [OF w, of v "length u" Map.empty] obtain c' where
      m: "(v, length u + length w, c') \<in> set (ms a (w @ v, length u, Map.empty))" by blast
    have "drop (length u) s = w @ v" using s by simp
    with m have "ms a (drop (length u) s, 0 + length u, Map.empty) \<noteq> []" by auto
    moreover have "length u \<le> length s" using s by simp
    moreover from n have "\<forall>k \<le> length s. ms a (drop k s, 0 + k, Map.empty) = []"
      by (rule iffD1 [OF search_None_iff])
    ultimately show False by blast
  qed
next
  assume h: "\<not> (\<exists>u w v. s = u @ w @ v \<and> w \<in> lang a)"
  show "search a s 0 = None"
  proof (rule ccontr)
    assume sn: "search a s 0 \<noteq> None"
    have "\<not> (\<forall>k \<le> length s. ms a (drop k s, 0 + k, Map.empty) = [])"
    proof
      assume "\<forall>k \<le> length s. ms a (drop k s, 0 + k, Map.empty) = []"
      then have "search a s 0 = None" by (rule iffD2 [OF search_None_iff])
      with sn show False by simp
    qed
    then obtain k where ne: "ms a (drop k s, 0 + k, Map.empty) \<noteq> []" by blast
    then obtain st rest where "ms a (drop k s, 0 + k, Map.empty) = st # rest"
      by (cases "ms a (drop k s, 0 + k, Map.empty)") auto
    then have st: "st \<in> set (ms a (drop k s, 0 + k, Map.empty))" by simp
    obtain r' q c' where "st = (r', q, c')" by (cases st) blast
    with st have "(r', q, c') \<in> set (ms a (drop k s, 0 + k, Map.empty))" by simp
    from ms_sound [OF this] obtain w where w: "drop k s = w @ r'" "w \<in> lang a" by blast
    have "s = take k s @ drop k s" by simp
    with w have "s = take k s @ w @ r'" by simp
    with w(2) h show False by blast
  qed
qed

section \<open>The steps of the recovery driver\<close>

declare parseInternal.simps [simp del]

lemma parseInternal_refused:
  "maxFixes \<le> depth \<Longrightarrow> parseInternal E text baseTpl depth = Inr (baseTpl, [])"
  by (subst parseInternal.simps) simp

lemma parseInternal_parsed:
  "depth < maxFixes \<Longrightarrow> Parse E baseTpl text = Inr t \<Longrightarrow>
   parseInternal E text baseTpl depth = Inr (t, [])"
  by (subst parseInternal.simps) simp

lemma parseInternal_misunderstood:
  "depth < maxFixes \<Longrightarrow> Parse E baseTpl text = Inl err \<Longrightarrow>
   Level (createTemplateError err parseErrorLevel) = misunderstoodError \<Longrightarrow>
   parseInternal E text baseTpl depth = Inr (baseTpl, [createTemplateError err parseErrorLevel])"
  by (subst parseInternal.simps) simp

lemma parseInternal_locate_panic:
  "depth < maxFixes \<Longrightarrow> Parse E baseTpl text = Inl err \<Longrightarrow>
   Level (createTemplateError err parseErrorLevel) \<noteq> misunderstoodError \<Longrightarrow>
   locateToken (SplitLines text) (createTemplateError err parseErrorLevel) = Inl e \<Longrightarrow>
   parseInternal E text baseTpl depth = Inl e"
  by (subst parseInternal.simps) simp

lemma parseInternal_stub:
  "depth < maxFixes \<Longrightarrow> Parse E baseTpl text = Inl err \<Longrightarrow>
   Level (createTemplateError err parseErrorLevel) \<noteq> misunderstoodError \<Longrightarrow>
   locateToken (SplitLines text) (createTemplateError err parseErrorLevel) = Inr tplErr \<Longrightarrow>
   FindStringSubmatch functionNotFoundRegex 1 (Description tplErr) = Some m \<Longrightarrow>
   Funcs E baseTpl (m ! 1) = Some baseTpl' \<Longrightarrow>
   parseInternal E text baseTpl depth =
     (case parseInternal E text baseTpl' (depth + 1) of
        Inl e \<Rightarrow> Inl e
      | Inr (t, parseTplErrs) \<Rightarrow> Inr (t, tplErr # parseTplErrs))"
  by (subst parseInternal.simps) simp

lemma parseInternal_stub_panic:
  "depth < maxFixes \<Longrightarrow> Parse E baseTpl text = Inl err \<Longrightarrow>
   Level (createTemplateError err parseErrorLevel) \<noteq> misunderstoodError \<Longrightarrow>
   locateToken (SplitLines text) (createTemplateError err parseErrorLevel) = Inr tplErr \<Longrightarrow>
   FindStringSubmatch functionNotFoundRegex 1 (Description tplErr) = Some m \<Longrightarrow>
   Funcs E baseTpl (m ! 1) = None \<Longrightarrow>
   parseInternal E text baseTpl depth = Inl BadFunctionName"
  by (subst parseInternal.simps) simp

lemma parseInternal_blank:
  "depth < maxFixes \<Longrightarrow> Parse E baseTpl text = Inl err \<Longrightarrow>
   Level (createTemplateError err parseErrorLevel) \<noteq> misunderstoodError \<Longrightarrow>
   locateToken (SplitLines text) (createTemplateError err parseErrorLevel) = Inr tplErr \<Longrightarrow>
   FindStringSubmatch functionNotFoundRegex 1 (Description tplErr) = None \<Longrightarrow>
   MatchString missingValueForCommandRegex (Description tplErr) \<Longrightarrow>
   FindStringSubmatch firstEmptyCommandRegex 3 text = Some matches \<Longrightarrow>
   index_line (SplitLines text) (Line tplErr) = Inr line \<Longrightarrow>
   (case FindStringIndex firstEmptyCommandRegex line of
      Some (a, b) \<Rightarrow> tplErr\<lparr>Char := int a\<rparr>
    | None \<Rightarrow> tplErr) = tplErr' \<Longrightarrow>
   parseInternal E text baseTpl depth =
     (case parseInternal E (blankOut text (matches ! 0)) baseTpl (depth + 1) of
        Inl e \<Rightarrow> Inl e
      | Inr (t, parseTplErrs) \<Rightarrow> Inr (t, tplErr' # parseTplErrs))"
  by (subst parseInternal.simps) auto

lemma parseInternal_blank_panic:
  "depth < maxFixes \<Longrightarrow> Parse E baseTpl text = Inl err \<Longrightarrow>
   Level (createTemplateError err parseErrorLevel) \<noteq> misunderstoodError \<Longrightarrow>
   locateToken (SplitLines text) (createTemplateError err parseErrorLevel) = Inr tplErr \<Longrightarrow>
   FindStringSubmatch functionNotFoundRegex 1 (Description tplErr) = None \<Longrightarrow>
   MatchString missingValueForCommandRegex (Description tplErr) \<Longrightarrow>
   FindStringSubmatch firstEmptyCommandRegex 3 text = Some matches \<Longrightarrow>
   index_line (SplitLines text) (Line tplErr) = Inl e \<Longrightarrow>
   parseInternal E text baseTpl depth = Inl e"
  by (subst parseInternal.simps) simp

lemma parseInternal_unhealed:
  "depth < maxFixes \<Longrightarrow> Parse E baseTpl text = Inl err \<Longrightarrow>
   Level (createTemplateError err parseErrorLevel) \<noteq> misunderstoodError \<Longrightarrow>
   locateToken (SplitLines text) (createTemplateError err parseErrorLevel) = Inr tplErr \<Longrightarrow>
   FindStringSubmatch functionNotFoundRegex 1 (Description tplErr) = None \<Longrightarrow>
   \<not> MatchString missingValueForCommandRegex (Description tplErr) \<or>
     FindStringSubmatch firstEmptyCommandRegex 3 text = None \<Longrightarrow>
   parseInternal E text baseTpl depth = Inr (baseTpl, [tplErr])"
  by (subst parseInternal.simps) auto

lemma createTemplateError_nomatch:
  "search templateErrorRegex err 0 = None \<Longrightarrow>
   createTemplateError err level =
     \<lparr>Line = -1, Char = -1, Description = err, Level = misunderstoodError\<rparr>"
  by (simp add: createTemplateError_def FindStringSubmatch_def)

section \<open>The diagnostic extractor\<close>

text \<open>
  C4. An error text that does not match the grammar of the engine's messages (no piece
  of it is in the language of \<open>templateErrorRegex\<close>) gives, whatever the level asked
  for, the diagnostic with level \<open>misunderstoodError\<close>, line and character \<open>-1\<close> and
  the whole text as its description. The extractor is a total function: it returns a
  diagnostic for every text.
\<close>

theorem createTemplateError_misunderstood:
  "\<not> matchesGrammar templateErrorRegex err \<Longrightarrow>
   createTemplateError err level =
     \<lparr>Line = -1, Char = -1, Description = err, Level = misunderstoodError\<rparr>"
  by (simp add: createTemplateError_nomatch search_None_lang)

theorem createTemplateError_misunderstood_witness:
  "\<not> matchesGrammar templateErrorRegex ''unexpected EOF'' \<and>
   createTemplateError ''unexpected EOF'' parseErrorLevel =
     \<lparr>Line = -1, Char = -1, Description = ''unexpected EOF'', Level = misunderstoodError\<rparr>"
proof -
  have "search templateErrorRegex ''unexpected EOF'' 0 = None" by code_simp
  then have h: "\<not> matchesGrammar templateErrorRegex ''unexpected EOF''"
    by (rule iffD1 [OF search_None_lang])
  from h createTemplateError_misunderstood [OF h, of parseErrorLevel] show ?thesis by simp
qed

section \<open>The depth bound\<close>

text \<open>
  C1, as amended. A call of the recovery driver at a depth of \<open>maxFixes\<close> or more
  returns the base template and an empty list of diagnostics: the bound is tested before
  the text is parsed, so no parse is attempted and no diagnostic is produced at that
  depth, whether or not the text would parse.
\<close>

theorem parseInternal_at_bound:
  "maxFixes \<le> depth \<Longrightarrow> parseInternal E text baseTpl depth = Inr (baseTpl, [])"
  by (subst parseInternal.simps) simp

theorem parseInternal_at_bound_witness:
  "maxFixes \<le> 10 \<and>
   parseInternal (scripted (\<lambda>fs text. Some ''template: input template:1: unclosed action'')
                           (\<lambda>t. None))
     ''{{'' (newTemplate ''input template'') 10 = Inr (newTemplate ''input template'', [])"
proof -
  have h: "maxFixes \<le> 10" by (simp add: maxFixes_def)
  from h parseInternal_at_bound [OF h] show ?thesis by simp
qed

text \<open>
  C1 as stated fails: the text \<open>{{\<close> does not parse, and the call at depth 10 returns
  a list that does not contain the diagnostic of that failure.
\<close>

theorem parseInternal_at_bound_counterexample:
  "Parse (scripted (\<lambda>fs text. Some ''template: input template:1: unclosed action'')
                   (\<lambda>t. None))
     (newTemplate ''input template'') ''{{'' = Inl ''template: input template:1: unclosed action'' \<and>
   maxFixes \<le> 10 \<and>
   (case parseInternal (scripted (\<lambda>fs text. Some ''template: input template:1: unclosed action'')
                                 (\<lambda>t. None))
           ''{{'' (newTemplate ''input template'') 10 of
      Inl e \<Rightarrow> False
    | Inr (t, tplErrs) \<Rightarrow>
        createTemplateError ''template: input template:1: unclosed action'' parseErrorLevel
          \<notin> set tplErrs)"
  by (subst parseInternal.simps) (simp add: scripted_def maxFixes_def)

section \<open>The execution translator\<close>



text \<open>
  C10. When the execution fails with a message that is not the suppressed one and does
  not match the grammar of the engine's messages, the one diagnostic returned has level
  \<open>misunderstoodError\<close>, line and character \<open>-1\<close> and the message as description:
  the level \<open>execErrorLevel\<close> asked for by the translator is not kept.
\<close>

theorem exec_misunderstood:
  "snd (Execute E t data) = Some err \<Longrightarrow> err \<noteq> emptyTemplateMessage (Name E t) \<Longrightarrow>
   \<not> matchesGrammar templateErrorRegex err \<Longrightarrow>
   fst (exec E t data buf) =
     [\<lparr>Line = -1, Char = -1, Description = err, Level = misunderstoodError\<rparr>]"
  by (auto simp: exec_def Let_def createTemplateError_nomatch search_None_lang
           split: prod.splits option.splits)

theorem exec_misunderstood_witness:
  "snd (Execute (scripted (\<lambda>fs text. None) (\<lambda>t. Some ''write: broken pipe''))
          (newTemplate ''input template'') ()) = Some ''write: broken pipe'' \<and>
   ''write: broken pipe'' \<noteq>
     emptyTemplateMessage (Name (scripted (\<lambda>fs text. None) (\<lambda>t. Some ''write: broken pipe''))
                             (newTemplate ''input template'')) \<and>
   \<not> matchesGrammar templateErrorRegex ''write: broken pipe'' \<and>
   fst (exec (scripted (\<lambda>fs text. None) (\<lambda>t. Some ''write: broken pipe''))
          (newTemplate ''input template'') () []) =
     [\<lparr>Line = -1, Char = -1, Description = ''write: broken pipe'', Level = misunderstoodError\<rparr>]"
proof -
  let ?E = "scripted (\<lambda>fs text. None) (\<lambda>t. Some ''write: broken pipe'')"
  let ?t = "newTemplate ''input template''"
  have h1: "snd (Execute ?E ?t ()) = Some ''write: broken pipe''"
    by (simp add: scripted_def)
  have h2: "''write: broken pipe'' \<noteq> emptyTemplateMessage (Name ?E ?t)"
    by (simp add: scripted_def emptyTemplateMessage_def)
  have "search templateErrorRegex ''write: broken pipe'' 0 = None" by code_simp
  then have h3: "\<not> matchesGrammar templateErrorRegex ''write: broken pipe''"
    by (rule iffD1 [OF search_None_lang])
  from h1 h2 h3 exec_misunderstood [OF h1 h2 h3, of "[]"] show ?thesis by blast
qed

section \<open>The small engine\<close>

lemma Parse_scripted:
  "Parse (scripted perr xerr) t text =
     (case perr (tfuncs t) text of Some m \<Rightarrow> Inl m | None \<Rightarrow> Inr (t\<lparr>tbody := Some text\<rparr>))"
  by (simp add: scripted_def)

lemma Funcs_scripted:
  "Funcs (scripted perr xerr) t n =
     (if goodName n then Some (t\<lparr>tfuncs := tfuncs t @ [n]\<rparr>) else None)"
  by (simp add: scripted_def)

section \<open>Blanking an empty action\<close>

text \<open>The healed text has the length of the original.\<close>

lemma Replace1_length:
  "length new = length old \<Longrightarrow> length (Replace1 s old new) = length s"
proof (induction s)
  case Nil
  then show ?case by auto
next
  case (Cons x xs)
  show ?case
  proof (cases "take (length old) (x # xs) = old")
    case True
    then have "length (take (length old) (x # xs)) = length old" by (rule arg_cong)
    then have "length old \<le> length (x # xs)" by (simp only: length_take)
    with True Cons.prems show ?thesis by simp
  next
    case False
    with Cons show ?thesis by simp
  qed
qed

lemma blankOut_length: "length (blankOut text m) = length text"
  by (simp add: blankOut_def pad_blank_def Replace1_length)

text \<open>
  C6 at the text \<open>mergedLinesText\<close>. The empty action found by
  \<open>firstEmptyCommandRegex\<close> contains the line feed, as \<open>\s\<close> matches it. The
  healed text has the length of the original, but the span of blanks has no line feed:
  the text had three lines and the healed text has two, and the undefined function of
  the third line is reported by the retry on line index 1, the index of the second line
  of the original.
\<close>

theorem blankOut_merges_lines:
  "SplitLines mergedLinesText = [''{{'', ''}}'', ''{{foo}}''] \<and>
   blankOut mergedLinesText (''{{'' @ [CHR 0x0A] @ ''}}'') = ''     '' @ [CHR 0x0A] @ ''{{foo}}'' \<and>
   SplitLines (''     '' @ [CHR 0x0A] @ ''{{foo}}'') = [''     '', ''{{foo}}''] \<and>
   parseInternal mergedLinesEngine mergedLinesText (newTemplate ''input template'') 0 =
     Inr (\<lparr>tname = ''input template'', tfuncs = [''foo''],
           tbody = Some (''     '' @ [CHR 0x0A] @ ''{{foo}}'')\<rparr>,
          [\<lparr>Line = 1, Char = -1, Description = ''missing value for command'',
            Level = parseErrorLevel\<rparr>,
           \<lparr>Line = 1, Char = 2,
            Description = ''function '' @ [CHR 0x22] @ ''foo'' @ [CHR 0x22] @ '' not defined'',
            Level = parseErrorLevel\<rparr>])"
proof -
  let ?E = mergedLinesEngine
  let ?t0 = "newTemplate ''input template''"
  let ?t1 = "\<lparr>tname = ''input template'', tfuncs = [''foo''], tbody = None\<rparr>"
  let ?healed = "''     '' @ [CHR 0x0A] @ ''{{foo}}''"
  let ?m1 = "''template: input template:2: missing value for command''"
  let ?m2 = "''template: input template:2: function '' @ [CHR 0x22] @ ''foo'' @ [CHR 0x22] @ '' not defined''"
  let ?d1 = "\<lparr>Line = 1, Char = -1, Description = ''missing value for command'', Level = parseErrorLevel\<rparr>"
  let ?d2 = "\<lparr>Line = 1, Char = 2, Description = ''function '' @ [CHR 0x22] @ ''foo'' @ [CHR 0x22] @ '' not defined'', Level = parseErrorLevel\<rparr>"
  have s0: "SplitLines mergedLinesText = [''{{'', ''}}'', ''{{foo}}'']" by code_simp
  have b: "blankOut mergedLinesText (''{{'' @ [CHR 0x0A] @ ''}}'') = ?healed" by code_simp
  have s1: "SplitLines ?healed = [''     '', ''{{foo}}'']" by code_simp
  have d: "(0::int) < maxFixes" "(0::int) + 1 < maxFixes" "(0::int) + 1 + 1 < maxFixes"
    by (simp_all add: maxFixes_def)
  have p0: "Parse ?E ?t0 mergedLinesText = Inl ?m1"
    by (simp add: mergedLinesEngine_def Parse_scripted)
  have c1: "createTemplateError ?m1 parseErrorLevel = ?d1" by code_simp
  have l1: "locateToken (SplitLines mergedLinesText) (createTemplateError ?m1 parseErrorLevel) = Inr ?d1"
    by code_simp
  have f1: "FindStringSubmatch functionNotFoundRegex 1 (Description ?d1) = None" by code_simp
  have v1: "MatchString missingValueForCommandRegex (Description ?d1)" by code_simp
  have e1: "FindStringSubmatch firstEmptyCommandRegex 3 mergedLinesText =
              Some [''{{'' @ [CHR 0x0A] @ ''}}'', [CHR 0x0A], [CHR 0x0A], []]" by code_simp
  have i1: "index_line (SplitLines mergedLinesText) (Line ?d1) = Inr ''}}''" by code_simp
  have x1: "(case FindStringIndex firstEmptyCommandRegex ''}}'' of
               Some (a, b) \<Rightarrow> ?d1\<lparr>Char := int a\<rparr> | None \<Rightarrow> ?d1) = ?d1" by code_simp
  have c1': "Level (createTemplateError ?m1 parseErrorLevel) \<noteq> misunderstoodError" by code_simp
  have e1': "[''{{'' @ [CHR 0x0A] @ ''}}'', [CHR 0x0A], [CHR 0x0A], []] ! 0 = ''{{'' @ [CHR 0x0A] @ ''}}''" by simp
  have step1: "parseInternal ?E mergedLinesText ?t0 0 =
      (case parseInternal ?E ?healed ?t0 (0 + 1) of
         Inl e \<Rightarrow> Inl e | Inr (t, errs) \<Rightarrow> Inr (t, ?d1 # errs))"
    using parseInternal_blank [OF d(1) p0 c1' l1 f1 v1 e1 i1 x1] unfolding e1' b .
  have ne: "?healed \<noteq> mergedLinesText" by (simp add: mergedLinesText_def)
  have p1: "Parse ?E ?t0 ?healed = Inl ?m2"
    using ne by (simp add: mergedLinesEngine_def Parse_scripted newTemplate_def)
  have c2: "Level (createTemplateError ?m2 parseErrorLevel) \<noteq> misunderstoodError" by code_simp
  have l2: "locateToken (SplitLines ?healed) (createTemplateError ?m2 parseErrorLevel) = Inr ?d2"
    by code_simp
  have f2: "FindStringSubmatch functionNotFoundRegex 1 (Description ?d2) =
              Some [''function '' @ [CHR 0x22] @ ''foo'' @ [CHR 0x22] @ '' not defined'', ''foo'']"
    by code_simp
  have g2: "Funcs ?E ?t0 ([''function '' @ [CHR 0x22] @ ''foo'' @ [CHR 0x22] @ '' not defined'', ''foo''] ! 1) = Some ?t1"
    by (simp add: mergedLinesEngine_def Funcs_scripted newTemplate_def goodName_def is_digit_def)
  have step2: "parseInternal ?E ?healed ?t0 (0 + 1) =
      (case parseInternal ?E ?healed ?t1 (0 + 1 + 1) of
         Inl e \<Rightarrow> Inl e | Inr (t, errs) \<Rightarrow> Inr (t, ?d2 # errs))"
    by (rule parseInternal_stub [OF d(2) p1 c2 l2 f2 g2])
  have p2: "Parse ?E ?t1 ?healed = Inr (?t1\<lparr>tbody := Some ?healed\<rparr>)"
    using ne by (simp add: mergedLinesEngine_def Parse_scripted)
  have step3: "parseInternal ?E ?healed ?t1 (0 + 1 + 1) = Inr (?t1\<lparr>tbody := Some ?healed\<rparr>, [])"
    by (rule parseInternal_parsed [OF d(3) p2])
  show ?thesis
    unfolding step1 step2 step3 using s0 b s1 by simp
qed

section \<open>Panics of the recovery driver\<close>

text \<open>
  C7 at three messages in the grammar. The line of the diagnostic is used as an index
  into the lines of the text without a test of its range, by the token locator (line 80)
  and by the empty-command healer (line 100); a line beyond the text and the line 0
  (index \<open>-1\<close>) make the driver panic. The function name of the message is registered
  without protection (line 92); a name the engine rejects makes the driver panic.
\<close>

theorem parseInternal_panics:
  "parseInternal (scripted (\<lambda>fs text. Some lineBeyondText) (\<lambda>t. None)) ''{{x}}''
     (newTemplate ''input template'') 0 = Inl IndexOutOfRange \<and>
   parseInternal (scripted (\<lambda>fs text. Some lineZero) (\<lambda>t. None)) ''{{}}''
     (newTemplate ''input template'') 0 = Inl IndexOutOfRange \<and>
   parseInternal (scripted (\<lambda>fs text. Some badStubName) (\<lambda>t. None)) ''{{a b}}''
     (newTemplate ''input template'') 0 = Inl BadFunctionName"
proof -
  let ?t0 = "newTemplate ''input template''"
  have d: "(0::int) < maxFixes" by (simp add: maxFixes_def)
  have a1: "Level (createTemplateError lineBeyondText parseErrorLevel) \<noteq> misunderstoodError"
    by code_simp
  have a2: "locateToken (SplitLines ''{{x}}'') (createTemplateError lineBeyondText parseErrorLevel)
              = Inl IndexOutOfRange" by code_simp
  have A: "parseInternal (scripted (\<lambda>fs text. Some lineBeyondText) (\<lambda>t. None)) ''{{x}}'' ?t0 0
             = Inl IndexOutOfRange"
    by (rule parseInternal_locate_panic [OF d _ a1 a2]) (simp add: Parse_scripted)
  let ?d = "\<lparr>Line = -1, Char = -1, Description = ''missing value for command'',
             Level = parseErrorLevel\<rparr>"
  have b1: "Level (createTemplateError lineZero parseErrorLevel) \<noteq> misunderstoodError"
    by code_simp
  have b2: "locateToken (SplitLines ''{{}}'') (createTemplateError lineZero parseErrorLevel) = Inr ?d"
    by code_simp
  have b3: "FindStringSubmatch functionNotFoundRegex 1 (Description ?d) = None" by code_simp
  have b4: "MatchString missingValueForCommandRegex (Description ?d)" by code_simp
  have b5: "FindStringSubmatch firstEmptyCommandRegex 3 ''{{}}'' = Some [''{{}}'', [], [], []]"
    by code_simp
  have b6: "index_line (SplitLines ''{{}}'') (Line ?d) = Inl IndexOutOfRange" by code_simp
  have B: "parseInternal (scripted (\<lambda>fs text. Some lineZero) (\<lambda>t. None)) ''{{}}'' ?t0 0
             = Inl IndexOutOfRange"
    by (rule parseInternal_blank_panic [OF d _ b1 b2 b3 b4 b5 b6]) (simp add: Parse_scripted)
  let ?e = "\<lparr>Line = 0, Char = 2,
             Description = ''function '' @ [CHR 0x22] @ ''a b'' @ [CHR 0x22] @ '' not defined'',
             Level = parseErrorLevel\<rparr>"
  have c1: "Level (createTemplateError badStubName parseErrorLevel) \<noteq> misunderstoodError"
    by code_simp
  have c2: "locateToken (SplitLines ''{{a b}}'') (createTemplateError badStubName parseErrorLevel)
              = Inr ?e" by code_simp
  have c3: "FindStringSubmatch functionNotFoundRegex 1 (Description ?e) =
              Some [''function '' @ [CHR 0x22] @ ''a b'' @ [CHR 0x22] @ '' not defined'', ''a b'']"
    by code_simp
  have c4: "Funcs (scripted (\<lambda>fs text. Some badStubName) (\<lambda>t. None)) ?t0
              ([''function '' @ [CHR 0x22] @ ''a b'' @ [CHR 0x22] @ '' not defined'', ''a b''] ! 1) = None"
    by (simp add: Funcs_scripted goodName_def is_digit_def)
  have C: "parseInternal (scripted (\<lambda>fs text. Some badStubName) (\<lambda>t. None)) ''{{a b}}'' ?t0 0
             = Inl BadFunctionName"
    by (rule parseInternal_stub_panic [OF d _ c1 c2 c3 c4]) (simp add: Parse_scripted)
  from A B C show ?thesis by blast
qed

section \<open>The groups of a match\<close>

lemma ms_caps:
  "(r', q, c') \<in> set (ms a (r, p, c)) \<Longrightarrow>
   c' i = c i \<or>
   (\<exists>x y. c' i = Some (x, y) \<and> p \<le> x \<and> x \<le> y \<and> y \<le> q \<and>
          take (y - x) (drop (x - p) r) \<in> glang i a)"
proof (induction a arbitrary: r p c r' q c')
  case (Lit w)
  then show ?case by (auto split: if_splits)
next
  case (Cls P)
  then show ?case by (auto split: list.splits if_splits)
next
  case (Seq a b)
  from Seq.prems obtain r1 q1 c1 where
    m1: "(r1, q1, c1) \<in> set (ms a (r, p, c))" and m2: "(r', q, c') \<in> set (ms b (r1, q1, c1))"
    by auto
  from ms_sound [OF m1] obtain u where u: "r = u @ r1" "q1 = p + length u" by blast
  from ms_sound [OF m2] obtain v where v: "r1 = v @ r'" "q = q1 + length v" by blast
  from Seq.IH(2) [OF m2] show ?case
  proof
    assume e: "c' i = c1 i"
    from Seq.IH(1) [OF m1] show ?thesis
    proof
      assume "c1 i = c i"
      with e show ?thesis by simp
    next
      assume "\<exists>x y. c1 i = Some (x, y) \<and> p \<le> x \<and> x \<le> y \<and> y \<le> q1 \<and>
                take (y - x) (drop (x - p) r) \<in> glang i a"
      then obtain x y where "c1 i = Some (x, y)" "p \<le> x" "x \<le> y" "y \<le> q1"
        "take (y - x) (drop (x - p) r) \<in> glang i a" by blast
      with e v(2) have "c' i = Some (x, y) \<and> p \<le> x \<and> x \<le> y \<and> y \<le> q \<and>
                take (y - x) (drop (x - p) r) \<in> glang i (Seq a b)" by simp
      then show ?thesis by blast
    qed
  next
    assume "\<exists>x y. c' i = Some (x, y) \<and> q1 \<le> x \<and> x \<le> y \<and> y \<le> q \<and>
              take (y - x) (drop (x - q1) r1) \<in> glang i b"
    then obtain x y where xy: "c' i = Some (x, y)" "q1 \<le> x" "x \<le> y" "y \<le> q"
      "take (y - x) (drop (x - q1) r1) \<in> glang i b" by blast
    have "drop (x - p) r = drop (x - q1) r1" using u xy(2) by simp
    with xy u(2) have "c' i = Some (x, y) \<and> p \<le> x \<and> x \<le> y \<and> y \<le> q \<and>
                take (y - x) (drop (x - p) r) \<in> glang i (Seq a b)" by simp
    then show ?thesis by blast
  qed
next
  case (Alt a b)
  from Alt.prems have "(r', q, c') \<in> set (ms a (r, p, c)) \<or> (r', q, c') \<in> set (ms b (r, p, c))"
    by simp
  then show ?case
  proof
    assume "(r', q, c') \<in> set (ms a (r, p, c))"
    from Alt.IH(1) [OF this] show ?thesis by auto
  next
    assume "(r', q, c') \<in> set (ms b (r, p, c))"
    from Alt.IH(2) [OF this] show ?thesis by auto
  qed
next
  case (Opt a)
  show ?case
  proof (cases "(r', q, c') \<in> set (ms a (r, p, c))")
    case True
    from Opt.IH [OF this] show ?thesis by simp
  next
    case False
    with Opt.prems have "c' = c" by auto
    then show ?thesis by simp
  qed
next
  case (Star P)
  then show ?case using starG_sound [of r' q c' P r p c] by auto
next
  case (StarL P)
  then show ?case using starL_sound [of r' q c' P r p c] by auto
next
  case (Grp j a)
  from Grp.prems obtain c0 where m: "(r', q, c0) \<in> set (ms a (r, p, c))"
    and c': "c' = c0(j \<mapsto> (p, q))" by auto
  from ms_sound [OF m] obtain w where w: "r = w @ r'" "q = p + length w" "w \<in> lang a" by blast
  show ?case
  proof (cases "i = j")
    case True
    with c' w have "c' i = Some (p, q) \<and> p \<le> p \<and> p \<le> q \<and> q \<le> q \<and>
                take (q - p) (drop (p - p) r) \<in> glang i (Grp j a)" by simp
    then show ?thesis by blast
  next
    case False
    with c' have "c' i = c0 i" by simp
    with Grp.IH [OF m] False show ?thesis by auto
  qed
qed

lemma search_hit: "ms a (s, p, Map.empty) = (r', q, c) # rest \<Longrightarrow> search a s p = Some (p, q, c)"
  by (cases s) simp_all

lemma search_skip:
  "\<forall>j < length u. ms a (drop j u @ s', p + j, Map.empty) = [] \<Longrightarrow>
   search a (u @ s') p = search a s' (p + length u)"
proof (induction u arbitrary: p)
  case Nil
  then show ?case by simp
next
  case (Cons x u)
  from Cons.prems have h0: "ms a (x # u @ s', p, Map.empty) = []"
    by (metis add.right_neutral append_Cons drop0 length_greater_0_conv list.distinct(1))
  have "\<forall>j < length u. ms a (drop j u @ s', Suc p + j, Map.empty) = []"
  proof (intro allI impI)
    fix j assume "j < length u"
    then have "Suc j < length (x # u)" by simp
    with Cons.prems have "ms a (drop (Suc j) (x # u) @ s', p + Suc j, Map.empty) = []" by blast
    then show "ms a (drop j u @ s', Suc p + j, Map.empty) = []" by simp
  qed
  from Cons.IH [OF this] h0 show ?case by simp
qed

lemma search_Some:
  "search a s p = Some (st, en, c) \<Longrightarrow>
   \<exists>k r' rest. k \<le> length s \<and> st = p + k \<and>
               ms a (drop k s, p + k, Map.empty) = (r', en, c) # rest"
proof (induction s arbitrary: p)
  case Nil
  then show ?case by (auto split: list.splits)
next
  case (Cons x xs)
  show ?case
  proof (cases "ms a (x # xs, p, Map.empty)")
    case Nil
    with Cons.prems have "search a xs (Suc p) = Some (st, en, c)" by simp
    from Cons.IH [OF this] obtain k r' rest where
      "k \<le> length xs" "st = Suc p + k" "ms a (drop k xs, Suc p + k, Map.empty) = (r', en, c) # rest"
      by blast
    then have "Suc k \<le> length (x # xs) \<and> st = p + Suc k \<and>
               ms a (drop (Suc k) (x # xs), p + Suc k, Map.empty) = (r', en, c) # rest" by simp
    then show ?thesis by blast
  next
    case (Cons y ys)
    obtain r' q' c' where y: "y = (r', q', c')" by (cases y) blast
    with Cons Cons.prems have "st = p" "en = q'" "c = c'" by simp_all
    with Cons y have "0 \<le> length (x # xs) \<and> st = p + 0 \<and>
               ms a (drop 0 (x # xs), p + 0, Map.empty) = (r', en, c) # ys" by simp
    then show ?thesis by blast
  qed
qed

text \<open>What a search returns: the matched text is in the language, and each group is unset
  or holds a text in the language of the group.\<close>

lemma search_groups:
  assumes "search a s 0 = Some (st, en, c)"
  shows "slice s st en \<in> lang a" and "c i = None \<or> group_text s c i \<in> glang i a"
proof -
  from search_Some [OF assms] obtain k r' rest where k: "k \<le> length s" "st = k"
    and m: "ms a (drop k s, 0 + k, Map.empty) = (r', en, c) # rest" by auto
  then have mem: "(r', en, c) \<in> set (ms a (drop k s, k, Map.empty))" by simp
  from ms_sound [OF mem] obtain w where w: "drop k s = w @ r'" "en = k + length w" "w \<in> lang a"
    by blast
  then have "slice s k en = w" by (simp add: slice_def)
  with w k show "slice s st en \<in> lang a" by simp
  from ms_caps [OF mem, of i] show "c i = None \<or> group_text s c i \<in> glang i a"
  proof
    assume "c i = Map.empty i"
    then show ?thesis by simp
  next
    assume "\<exists>x y. c i = Some (x, y) \<and> k \<le> x \<and> x \<le> y \<and> y \<le> en \<and>
              take (y - x) (drop (x - k) (drop k s)) \<in> glang i a"
    then obtain x y where xy: "c i = Some (x, y)" "k \<le> x"
      "take (y - x) (drop (x - k) (drop k s)) \<in> glang i a" by blast
    then have "group_text s c i = take (y - x) (drop (x - k) (drop k s))"
      by (simp add: group_text_def slice_def)
    with xy show ?thesis by simp
  qed
qed

section \<open>Numbers of a message\<close>

lemma is_digit_val: "is_digit c \<Longrightarrow> 0 \<le> digit_val c \<and> digit_val c \<le> 9"
  by (auto simp: is_digit_def digit_val_def)

lemma foldl_dec_nonneg:
  "list_all is_digit ds \<Longrightarrow> 0 \<le> a \<Longrightarrow> 0 \<le> foldl (\<lambda>a c. 10 * a + digit_val c) a ds"
proof (induction ds arbitrary: a)
  case Nil
  then show ?case by simp
next
  case (Cons d ds)
  then have "0 \<le> 10 * a + digit_val d" using is_digit_val [of d] by simp
  with Cons show ?case by simp
qed

lemma dec_val_nonneg: "list_all is_digit ds \<Longrightarrow> 0 \<le> dec_val ds"
  by (simp add: dec_val_def foldl_dec_nonneg)

lemma Atoi_digits:
  assumes "ds \<noteq> []" "list_all is_digit ds"
  shows "Atoi ds = (if dec_val ds < 2 ^ 63 then Some (dec_val ds) else None)"
proof -
  from assms obtain d r where ds: "ds = d # r" by (cases ds) auto
  with assms have "is_digit d" by simp
  then have "d \<noteq> CHR ''-''" "d \<noteq> CHR ''+''" by (auto simp: is_digit_def)
  moreover have "0 \<le> dec_val ds" using assms by (simp add: dec_val_nonneg)
  ultimately show ?thesis using assms ds
    by (auto simp: Atoi_def Let_def)
qed

lemma upt_groups: "[1..<Suc 5] = [1, 2, 3, 4, 5]"
  by code_simp

lemma FindStringSubmatch_5:
  "FindStringSubmatch a 5 s =
     map_option (\<lambda>(st, en, c). [slice s st en, group_text s c 1, group_text s c 2,
                                  group_text s c 3, group_text s c 4, group_text s c 5])
       (search a s 0)"
  by (simp only: FindStringSubmatch_def upt_groups list.map)

lemma createTemplateError_match:
  "search templateErrorRegex err 0 = Some (st, en, c) \<Longrightarrow>
   createTemplateError err level =
     \<lparr>Line = (case Atoi (if group_text err c 3 \<noteq> [] then group_text err c 3
                          else group_text err c 4) of
                None \<Rightarrow> -1 | Some l \<Rightarrow> l - 1),
      Char = (if group_text err c 3 \<noteq> []
              then (case Atoi (group_text err c 4) of None \<Rightarrow> -1 | Some n \<Rightarrow> n)
              else -1),
      Description = group_text err c 5, Level = level\<rparr>"
  by (simp add: createTemplateError_def FindStringSubmatch_5 Let_def)

lemma lang_Plus: "lang (Plus P) = {x # w | x w. P x \<and> list_all P w}"
proof (intro set_eqI iffI)
  fix s assume "s \<in> lang (Plus P)"
  then show "s \<in> {x # w | x w. P x \<and> list_all P w}" by auto
next
  fix s assume "s \<in> {x # w | x w. P x \<and> list_all P w}"
  then obtain x w where "s = [x] @ w" "P x" "list_all P w" by auto
  then show "s \<in> lang (Plus P)" by (simp del: append.simps) blast
qed

lemma templateErrorRegex_groups:
  "glang 3 templateErrorRegex = {x # w | x w. is_digit x \<and> list_all is_digit w}"
  "glang 4 templateErrorRegex = {x # w | x w. is_digit x \<and> list_all is_digit w}"
  "glang 5 templateErrorRegex = {w. list_all any_char w}"
  by (simp_all add: templateErrorRegex_def lang_Plus del: lang.simps(3))

lemma group_digits:
  assumes "search templateErrorRegex err 0 = Some (st, en, c)" "i = 3 \<or> i = 4"
  shows "group_text err c i = [] \<or> list_all is_digit (group_text err c i)"
proof -
  from search_groups(2) [OF assms(1), of i]
  have "c i = None \<or> group_text err c i \<in> glang i templateErrorRegex" .
  then show ?thesis
  proof
    assume "c i = None"
    then show ?thesis by (simp add: group_text_def)
  next
    assume "group_text err c i \<in> glang i templateErrorRegex"
    with assms(2) show ?thesis by (auto simp: templateErrorRegex_groups)
  qed
qed

lemma Atoi_group:
  assumes "search templateErrorRegex err 0 = Some (st, en, c)" "i = 3 \<or> i = 4"
  shows "Atoi (group_text err c i) =
           (if group_text err c i \<noteq> [] \<and> dec_val (group_text err c i) < 2 ^ 63
            then Some (dec_val (group_text err c i)) else None)"
proof (cases "group_text err c i = []")
  case True
  then show ?thesis by (simp add: Atoi_def)
next
  case False
  with group_digits [OF assms] have "list_all is_digit (group_text err c i)" by simp
  with False show ?thesis by (simp add: Atoi_digits)
qed

text \<open>
  C9, as amended. For a requested level other than \<open>misunderstoodError\<close>: a diagnostic
  of level \<open>misunderstoodError\<close> has line and character \<open>-1\<close> and the whole error
  text as description; line and character are never below \<open>-1\<close>; and a character
  \<open>\<ge> 0\<close> comes with a line \<open>\<ge> 0\<close> except when the line field of the message is the
  number 0 or a number beyond the range of \<open>int\<close>: the two fields are converted
  independently, and the line is then \<open>-1\<close> beside the character of the message.
\<close>

theorem createTemplateError_invariant:
  "level \<noteq> misunderstoodError \<Longrightarrow>
   (Level (createTemplateError err level) = misunderstoodError \<longrightarrow>
      Line (createTemplateError err level) = -1 \<and> Char (createTemplateError err level) = -1 \<and>
      Description (createTemplateError err level) = err) \<and>
   -1 \<le> Line (createTemplateError err level) \<and> -1 \<le> Char (createTemplateError err level) \<and>
   (0 \<le> Char (createTemplateError err level) \<and> Line (createTemplateError err level) < 0 \<longrightarrow>
      (\<exists>m. FindStringSubmatch templateErrorRegex 5 err = Some m \<and> m ! 3 \<noteq> [] \<and>
           list_all is_digit (m ! 3) \<and> (dec_val (m ! 3) = 0 \<or> 2 ^ 63 \<le> dec_val (m ! 3))))"
proof (cases "search templateErrorRegex err 0")
  case None
  then show ?thesis by (simp add: createTemplateError_nomatch)
next
  case (Some res)
  obtain st en c where res: "res = (st, en, c)" by (cases res) blast
  with Some have s: "search templateErrorRegex err 0 = Some (st, en, c)" by simp
  assume lv: "level \<noteq> misunderstoodError"
  let ?g3 = "group_text err c 3" and ?g4 = "group_text err c 4"
  note cte = createTemplateError_match [OF s, of level]
  have a3: "Atoi ?g3 = (if ?g3 \<noteq> [] \<and> dec_val ?g3 < 2 ^ 63 then Some (dec_val ?g3) else None)"
    by (rule Atoi_group [OF s]) simp
  have a4: "Atoi ?g4 = (if ?g4 \<noteq> [] \<and> dec_val ?g4 < 2 ^ 63 then Some (dec_val ?g4) else None)"
    by (rule Atoi_group [OF s]) simp
  have d3: "?g3 \<noteq> [] \<Longrightarrow> list_all is_digit ?g3 \<and> 0 \<le> dec_val ?g3"
    using group_digits [OF s, of 3] by (auto simp: dec_val_nonneg)
  have d4: "?g4 \<noteq> [] \<Longrightarrow> 0 \<le> dec_val ?g4"
    using group_digits [OF s, of 4] by (auto simp: dec_val_nonneg)
  have m: "FindStringSubmatch templateErrorRegex 5 err =
             Some [slice err st en, group_text err c 1, group_text err c 2,
                   group_text err c 3, group_text err c 4, group_text err c 5]"
    using s by (simp add: FindStringSubmatch_5)
  have l1: "Level (createTemplateError err level) \<noteq> misunderstoodError"
    using lv by (simp add: cte)
  have l2: "-1 \<le> Line (createTemplateError err level)"
    using d3 d4 by (auto simp: cte a3 a4)
  have l3: "-1 \<le> Char (createTemplateError err level)"
    using d4 by (auto simp: cte a4)
  have l4: "0 \<le> Char (createTemplateError err level) \<and> Line (createTemplateError err level) < 0 \<longrightarrow>
      ?g3 \<noteq> [] \<and> list_all is_digit ?g3 \<and> (dec_val ?g3 = 0 \<or> 2 ^ 63 \<le> dec_val ?g3)"
    using d3 by (auto simp: cte a3 a4 split: if_splits)
  from l1 l2 l3 l4 m show ?thesis by simp
qed

theorem createTemplateError_invariant_witness:
  "parseErrorLevel \<noteq> misunderstoodError \<and>
   Level (createTemplateError ''unexpected EOF'' parseErrorLevel) = misunderstoodError \<and>
   Line (createTemplateError ''unexpected EOF'' parseErrorLevel) = -1 \<and>
   Char (createTemplateError ''unexpected EOF'' parseErrorLevel) = -1 \<and>
   Description (createTemplateError ''unexpected EOF'' parseErrorLevel) = ''unexpected EOF'' \<and>
   0 \<le> Char (createTemplateError ''template: X:0:5: some error'' parseErrorLevel) \<and>
   Line (createTemplateError ''template: X:0:5: some error'' parseErrorLevel) < 0 \<and>
   (\<exists>m. FindStringSubmatch templateErrorRegex 5 ''template: X:0:5: some error'' = Some m \<and>
        m ! 3 \<noteq> [] \<and> list_all is_digit (m ! 3) \<and>
        (dec_val (m ! 3) = 0 \<or> 2 ^ 63 \<le> dec_val (m ! 3)))"
proof -
  have h: "parseErrorLevel \<noteq> misunderstoodError" by simp
  have a: "Level (createTemplateError ''unexpected EOF'' parseErrorLevel) = misunderstoodError"
    by code_simp
  have b: "0 \<le> Char (createTemplateError ''template: X:0:5: some error'' parseErrorLevel) \<and>
           Line (createTemplateError ''template: X:0:5: some error'' parseErrorLevel) < 0"
    by code_simp
  from h a b createTemplateError_invariant [OF h, of "''unexpected EOF''"]
    createTemplateError_invariant [OF h, of "''template: X:0:5: some error''"]
  show ?thesis by blast
qed

text \<open>
  C9 as stated fails at a message whose line field is beyond the range of \<open>int\<close> and
  whose character field is 5: the character is 5 and the line is \<open>-1\<close>.
\<close>

theorem createTemplateError_invariant_counterexample:
  "0 \<le> Char (createTemplateError ''template: X:99999999999999999999:5: some error'' parseErrorLevel) \<and>
   \<not> 0 \<le> Line (createTemplateError ''template: X:99999999999999999999:5: some error''
                   parseErrorLevel)"
  by code_simp

section \<open>The first match of a pattern\<close>

text \<open>The first match of a sequence: the states of the first part on which the second
  part fails are passed over.\<close>

lemma ms_Seq_first:
  assumes "ms a st = pre @ y # post" "\<forall>z \<in> set pre. ms b z = []" "ms b y = x # t"
  shows "\<exists>t'. ms (Seq a b) st = x # t'"
proof -
  have c: "concat (map (ms b) pre) = []" using assms(2) by simp
  have "ms (Seq a b) st = concat (map (ms b) pre) @ ms b y @ concat (map (ms b) post)"
    using assms(1) by simp
  then have "ms (Seq a b) st = x # (t @ concat (map (ms b) post))"
    unfolding c assms(3) by simp
  then show ?thesis by blast
qed

lemma ms_Seq_Lit:
  "ms (Seq (Lit w) b) (w @ r, p, c) = ms b (r, p + length w, c)"
  by simp

lemma ms_Seq_Lit_fail:
  "take (length w) r \<noteq> w \<Longrightarrow> ms (Seq (Lit w) b) (r, p, c) = []"
  by simp

text \<open>Greedy repetition over \<open>u @ v\<close>, all of \<open>u\<close> in the class: first the states that
  have read into \<open>v\<close>, then the state that has read exactly \<open>u\<close>.\<close>

lemma starG_split:
  "list_all P u \<Longrightarrow>
   \<exists>A B. starG P (u @ v) p c = A @ (v, p + length u, c) # B \<and>
         (\<forall>st \<in> set A. \<exists>w. w \<noteq> [] \<and> list_all P w \<and> v = w @ fst st)"
proof (induction u arbitrary: p)
  case Nil
  show ?case
  proof (cases v)
    case Nil
    then have "starG P ([] @ v) p c = [] @ (v, p + length ([]::string), c) # []" by simp
    then show ?thesis by (metis empty_iff empty_set)
  next
    case (Cons x xs)
    let ?A = "if P x then starG P xs (Suc p) c else []"
    have e: "starG P ([] @ v) p c = ?A @ (v, p + length ([]::string), c) # []"
      using Cons by simp
    have "\<forall>st \<in> set ?A. \<exists>w. w \<noteq> [] \<and> list_all P w \<and> v = w @ fst st"
    proof
      fix st assume st: "st \<in> set ?A"
      obtain r' q c' where s: "st = (r', q, c')" by (cases st) blast
      from st have px: "P x" by (auto split: if_splits)
      with st s have "(r', q, c') \<in> set (starG P xs (Suc p) c)" by simp
      from starG_sound [OF this] obtain w where "xs = w @ r'" "list_all P w" by blast
      with px Cons s have "x # w \<noteq> [] \<and> list_all P (x # w) \<and> v = (x # w) @ fst st" by simp
      then show "\<exists>w. w \<noteq> [] \<and> list_all P w \<and> v = w @ fst st" by blast
    qed
    with e show ?thesis by blast
  qed
next
  case (Cons x u)
  then have px: "P x" and pu: "list_all P u" by simp_all
  from Cons.IH [OF pu, of "Suc p"] obtain A B where
    e: "starG P (u @ v) (Suc p) c = A @ (v, Suc p + length u, c) # B"
    and a: "\<forall>st \<in> set A. \<exists>w. w \<noteq> [] \<and> list_all P w \<and> v = w @ fst st" by blast
  from px e have "starG P ((x # u) @ v) p c =
      A @ (v, p + length (x # u), c) # (B @ [(x # u @ v, p, c)])" by simp
  with a show ?case by blast
qed

text \<open>Lazy repetition over \<open>u @ v\<close>, all of \<open>u\<close> in the class: first the states that
  have read a proper part of \<open>u\<close>, then the state that has read exactly \<open>u\<close>.\<close>

lemma starL_split:
  "list_all P u \<Longrightarrow>
   \<exists>A B. starL P (u @ v) p c = A @ (v, p + length u, c) # B \<and>
         (\<forall>st \<in> set A. \<exists>k < length u. fst st = drop k u @ v)"
proof (induction u arbitrary: p)
  case Nil
  have "\<exists>B. starL P v p c = (v, p, c) # B" by (cases v) simp_all
  then obtain B where "starL P ([] @ v) p c = [] @ (v, p + length ([]::string), c) # B" by auto
  then show ?case by (metis empty_iff empty_set)
next
  case (Cons x u)
  then have px: "P x" and pu: "list_all P u" by simp_all
  from Cons.IH [OF pu, of "Suc p"] obtain A B where
    e: "starL P (u @ v) (Suc p) c = A @ (v, Suc p + length u, c) # B"
    and a: "\<forall>st \<in> set A. \<exists>k < length u. fst st = drop k u @ v" by blast
  let ?A = "(x # u @ v, p, c) # A"
  from px e have e': "starL P ((x # u) @ v) p c = ?A @ (v, p + length (x # u), c) # B" by simp
  have "\<forall>st \<in> set ?A. \<exists>k < length (x # u). fst st = drop k (x # u) @ v"
  proof
    fix st assume "st \<in> set ?A"
    then have "st = (x # u @ v, p, c) \<or> st \<in> set A" by simp
    then show "\<exists>k < length (x # u). fst st = drop k (x # u) @ v"
    proof
      assume "st = (x # u @ v, p, c)"
      then have "0 < length (x # u) \<and> fst st = drop 0 (x # u) @ v" by simp
      then show ?thesis by blast
    next
      assume "st \<in> set A"
      with a obtain k where "k < length u" "fst st = drop k u @ v" by blast
      then have "Suc k < length (x # u) \<and> fst st = drop (Suc k) (x # u) @ v" by simp
      then show ?thesis by blast
    qed
  qed
  with e' show ?case by blast
qed

lemma ms_Grp_split:
  assumes "ms a (r, p, c) = A @ (r', q, c') # B"
  shows "ms (Grp i a) (r, p, c) =
           map (\<lambda>(r', q, c'). (r', q, c'(i \<mapsto> (p, q)))) A @ (r', q, c'(i \<mapsto> (p, q))) #
           map (\<lambda>(r', q, c'). (r', q, c'(i \<mapsto> (p, q)))) B"
  using assms by simp

lemma fst_Grp_map:
  "st \<in> set (map (\<lambda>(r', q, c'). (r', q, c'(i \<mapsto> (p, q)))) A) \<Longrightarrow> \<exists>st' \<in> set A. fst st = fst st'"
  by force

lemma starG_head:
  assumes "list_all P u" "v = [] \<or> \<not> P (hd v)"
  shows "\<exists>B. starG P (u @ v) p c = (v, p + length u, c) # B"
proof -
  from starG_split [OF assms(1), of v p c] obtain A B where
    e: "starG P (u @ v) p c = A @ (v, p + length u, c) # B"
    and a: "\<forall>st \<in> set A. \<exists>w. w \<noteq> [] \<and> list_all P w \<and> v = w @ fst st" by blast
  have "A = []"
  proof (rule ccontr)
    assume "A \<noteq> []"
    then obtain st where "st \<in> set A" by (cases A) auto
    with a obtain w where "w \<noteq> []" "list_all P w" "v = w @ fst st" by blast
    then have "v \<noteq> [] \<and> P (hd v)" by (cases w) auto
    with assms(2) show False by blast
  qed
  with e show ?thesis by simp
qed

lemma Plus_head:
  assumes "l \<noteq> []" "list_all P l" "v = [] \<or> \<not> P (hd v)"
  shows "\<exists>B. ms (Plus P) (l @ v, p, c) = (v, p + length l, c) # B"
proof -
  from assms(1,2) obtain x l' where l: "l = x # l'" "P x" "list_all P l'" by (cases l) auto
  from starG_head [OF l(3) assms(3), of "Suc p" c] obtain B where
    "starG P (l' @ v) (Suc p) c = (v, Suc p + length l', c) # B" by blast
  with l show ?thesis by simp
qed

section \<open>The first match of the message pattern\<close>

lemma templateErrorRegex_parts: "templateErrorRegex = Seq (Lit ''template: '') namePart"
  by (simp add: templateErrorRegex_def namePart_def linePart_def numberPart_def descriptionPart_def)

lemma description_first:
  assumes "list_all any_char d"
  shows "\<exists>t. ms descriptionPart ('': '' @ d, q, c) =
              ([], q + 2 + length d, c(5 \<mapsto> (q + 2, q + 2 + length d))) # t"
proof -
  from starG_head [OF assms, of "[]" "q + 2" c] obtain B where
    "starG any_char d (q + 2) c = ([], q + 2 + length d, c) # B" by auto
  then show ?thesis by (simp add: descriptionPart_def)
qed

lemma number_first:
  assumes "l \<noteq> []" "list_all is_digit l" "list_all any_char d"
  shows "\<exists>t. ms numberPart (l @ '': '' @ d, q, c) =
              ([], q + length l + 2 + length d,
               c(4 \<mapsto> (q, q + length l), 5 \<mapsto> (q + length l + 2, q + length l + 2 + length d))) # t"
proof -
  have nd: "'': '' @ d = [] \<or> \<not> is_digit (hd ('': '' @ d))" by (simp add: is_digit_def)
  from Plus_head [OF assms(1,2) nd, of q c] obtain B where
    "ms (Plus is_digit) (l @ '': '' @ d, q, c) = ('': '' @ d, q + length l, c) # B" by blast
  then have g: "ms (Grp 4 (Plus is_digit)) (l @ '': '' @ d, q, c) =
      [] @ ('': '' @ d, q + length l, c(4 \<mapsto> (q, q + length l))) #
      map (\<lambda>(r', q', c'). (r', q', c'(4 \<mapsto> (q, q')))) B"
    by simp
  from description_first [OF assms(3), of "q + length l" "c(4 \<mapsto> (q, q + length l))"] obtain t where
    d: "ms descriptionPart ('': '' @ d, q + length l, c(4 \<mapsto> (q, q + length l))) =
          ([], q + length l + 2 + length d,
           c(4 \<mapsto> (q, q + length l), 5 \<mapsto> (q + length l + 2, q + length l + 2 + length d))) # t"
    by blast
  from ms_Seq_first [OF g _ d] show ?thesis by (simp add: numberPart_def)
qed

lemma digits_then_colon:
  assumes "list_all is_digit u" "list_all is_digit u'" "u @ CHR '':'' # x = u' @ CHR '':'' # y"
  shows "u = u' \<and> x = y"
proof -
  have nd: "\<not> is_digit (CHR '':'')" by (simp add: is_digit_def)
  have "takeWhile is_digit (u @ CHR '':'' # x) = u"
    using assms(1) nd by (simp add: list_all_iff)
  moreover have "takeWhile is_digit (u' @ CHR '':'' # y) = u'"
    using assms(2) nd by (simp add: list_all_iff)
  ultimately have "u = u'" using assms(3) by simp
  with assms(3) show ?thesis by simp
qed

lemma line_only_first:
  assumes "l \<noteq> []" "list_all is_digit l" "list_all any_char d"
  shows "\<exists>t. ms linePart (l @ '': '' @ d, q, c) =
              ([], q + length l + 2 + length d,
               c(4 \<mapsto> (q, q + length l), 5 \<mapsto> (q + length l + 2, q + length l + 2 + length d))) # t"
proof -
  let ?st = "(l @ '': '' @ d, q, c)"
  let ?G2 = "Grp 2 (Seq (Grp 3 (Plus is_digit)) (Lit '':''))"
  have fail: "\<forall>z \<in> set (ms ?G2 ?st). ms numberPart z = []"
  proof
    fix z assume z: "z \<in> set (ms ?G2 ?st)"
    obtain r' q' c' where zz: "z = (r', q', c')" by (cases z) blast
    from ms_sound [of r' q' c' ?G2 "l @ '': '' @ d" q c] z zz obtain w where
      w: "l @ '': '' @ d = w @ r'" "w \<in> lang ?G2" by blast
    from w(2) obtain ds where ds: "w = ds @ '':''" "list_all is_digit ds"
      unfolding lang.simps(8) lang.simps(3) [of "Grp 3 (Plus is_digit)"] lang_Plus by auto
    from w(1) ds have "l @ CHR '':'' # ('' '' @ d) = ds @ CHR '':'' # r'" by simp
    from digits_then_colon [OF assms(2) ds(2) this] have "r' = '' '' @ d" by simp
    then show "ms numberPart z = []" by (simp add: zz numberPart_def is_digit_def)
  qed
  have o: "ms (Opt ?G2) ?st = ms ?G2 ?st @ ?st # []" by simp
  from number_first [OF assms, of q c] obtain t where
    n: "ms numberPart ?st =
          ([], q + length l + 2 + length d,
           c(4 \<mapsto> (q, q + length l), 5 \<mapsto> (q + length l + 2, q + length l + 2 + length d))) # t"
    by blast
  from ms_Seq_first [OF o fail n] show ?thesis by (simp add: linePart_def)
qed

lemma line_char_first:
  assumes "l \<noteq> []" "list_all is_digit l" "n \<noteq> []" "list_all is_digit n" "list_all any_char d"
  shows "\<exists>t. ms linePart (l @ '':'' @ n @ '': '' @ d, q, c) =
              ([], q + length l + 1 + length n + 2 + length d,
               c(3 \<mapsto> (q, q + length l), 2 \<mapsto> (q, q + length l + 1),
                 4 \<mapsto> (q + length l + 1, q + length l + 1 + length n),
                 5 \<mapsto> (q + length l + 1 + length n + 2,
                       q + length l + 1 + length n + 2 + length d))) # t"
proof -
  let ?rest = "n @ '': '' @ d"
  let ?st = "(l @ '':'' @ ?rest, q, c)"
  let ?G2 = "Grp 2 (Seq (Grp 3 (Plus is_digit)) (Lit '':''))"
  have nd: "'':'' @ ?rest = [] \<or> \<not> is_digit (hd ('':'' @ ?rest))" by (simp add: is_digit_def)
  from Plus_head [OF assms(1,2) nd, of q c] obtain B where
    "ms (Plus is_digit) (l @ '':'' @ ?rest, q, c) = ('':'' @ ?rest, q + length l, c) # B" by blast
  then have g3: "ms (Grp 3 (Plus is_digit)) ?st =
      [] @ ('':'' @ ?rest, q + length l, c(3 \<mapsto> (q, q + length l))) #
      map (\<lambda>(r', q', c'). (r', q', c'(3 \<mapsto> (q, q')))) B"
    by simp
  have lit: "ms (Lit '':'') ('':'' @ ?rest, q + length l, c(3 \<mapsto> (q, q + length l))) =
      (?rest, q + length l + 1, c(3 \<mapsto> (q, q + length l))) # []" by simp
  from ms_Seq_first [OF g3 _ lit] obtain t1 where
    "ms (Seq (Grp 3 (Plus is_digit)) (Lit '':'')) ?st =
       (?rest, q + length l + 1, c(3 \<mapsto> (q, q + length l))) # t1" by auto
  then have o: "ms (Opt ?G2) ?st =
      [] @ (?rest, q + length l + 1, c(3 \<mapsto> (q, q + length l), 2 \<mapsto> (q, q + length l + 1))) #
      (map (\<lambda>(r', q', c'). (r', q', c'(2 \<mapsto> (q, q')))) t1 @ [?st])"
    by simp
  from number_first [OF assms(3,4,5), of "q + length l + 1"
      "c(3 \<mapsto> (q, q + length l), 2 \<mapsto> (q, q + length l + 1))"] obtain t where
    n: "ms numberPart (?rest, q + length l + 1, c(3 \<mapsto> (q, q + length l), 2 \<mapsto> (q, q + length l + 1))) =
          ([], q + length l + 1 + length n + 2 + length d,
           c(3 \<mapsto> (q, q + length l), 2 \<mapsto> (q, q + length l + 1),
             4 \<mapsto> (q + length l + 1, q + length l + 1 + length n),
             5 \<mapsto> (q + length l + 1 + length n + 2,
                   q + length l + 1 + length n + 2 + length d))) # t"
    by blast
  from ms_Seq_first [OF o _ n] show ?thesis by (simp add: linePart_def)
qed

lemma name_first:
  assumes "list_all any_char name" "CHR '':'' \<notin> set name"
    and "ms linePart (s2, q + length name + 1, c(1 \<mapsto> (q, q + length name))) = x # t"
  shows "\<exists>t'. ms namePart (name @ '':'' @ s2, q, c) = x # t'"
proof -
  let ?upd = "\<lambda>(r', q', c'). (r', q', c'(1 \<mapsto> (q, q')))"
  from starL_split [OF assms(1), of "'':'' @ s2" q c] obtain A B where
    e: "starL any_char (name @ '':'' @ s2) q c = A @ ('':'' @ s2, q + length name, c) # B"
    and a: "\<forall>st \<in> set A. \<exists>k < length name. fst st = drop k name @ '':'' @ s2" by blast
  from e have g: "ms (Grp 1 (StarL any_char)) (name @ '':'' @ s2, q, c) =
      map ?upd A @ ('':'' @ s2, q + length name, c(1 \<mapsto> (q, q + length name))) # map ?upd B"
    by simp
  have fail: "\<forall>z \<in> set (map ?upd A). ms (Seq (Lit '':'') linePart) z = []"
  proof
    fix z assume "z \<in> set (map ?upd A)"
    from fst_Grp_map [OF this] a obtain k where k: "k < length name" "fst z = drop k name @ '':'' @ s2"
      by force
    then have "drop k name \<noteq> []" by simp
    then obtain y ys where y: "drop k name = y # ys" by (cases "drop k name") auto
    then have "y \<in> set name" by (metis in_set_dropD list.set_intros(1))
    with assms(2) have "y \<noteq> CHR '':''" by auto
    obtain r' q' c' where z: "z = (r', q', c')" by (cases z) blast
    with k y \<open>y \<noteq> CHR '':''\<close> show "ms (Seq (Lit '':'') linePart) z = []" by simp
  qed
  have ok: "ms (Seq (Lit '':'') linePart) ('':'' @ s2, q + length name, c(1 \<mapsto> (q, q + length name)))
              = x # t"
    using assms(3) by simp
  from ms_Seq_first [OF g fail ok] show ?thesis by (simp add: namePart_def)
qed

lemma slice_mid: "slice (u @ w @ v) (length u) (length u + length w) = w"
  by (simp add: slice_def)

lemma search_line_only:
  assumes "list_all any_char name" "CHR '':'' \<notin> set name"
    "l \<noteq> []" "list_all is_digit l" "list_all any_char d"
  shows "\<exists>en c. search templateErrorRegex (''template: '' @ name @ '':'' @ l @ '': '' @ d) 0
                  = Some (0, en, c) \<and>
           c 3 = None \<and>
           c 4 = Some (length (''template: '' @ name @ '':''),
                       length (''template: '' @ name @ '':'') + length l) \<and>
           c 5 = Some (length (''template: '' @ name @ '':'' @ l @ '': ''),
                       length (''template: '' @ name @ '':'' @ l @ '': '') + length d)"
proof -
  let ?q = "length ''template: ''"
  let ?c1 = "Map.empty(1 \<mapsto> (?q, ?q + length name))"
  from line_only_first [OF assms(3,4,5), of "?q + length name + 1" ?c1] obtain t where
    "ms linePart (l @ '': '' @ d, ?q + length name + 1, ?c1) =
       ([], ?q + length name + 1 + length l + 2 + length d,
        ?c1(4 \<mapsto> (?q + length name + 1, ?q + length name + 1 + length l),
            5 \<mapsto> (?q + length name + 1 + length l + 2,
                  ?q + length name + 1 + length l + 2 + length d))) # t" by blast
  from name_first [OF assms(1,2) this] obtain t' where
    "ms namePart (name @ '':'' @ l @ '': '' @ d, ?q, Map.empty) =
       ([], ?q + length name + 1 + length l + 2 + length d,
        ?c1(4 \<mapsto> (?q + length name + 1, ?q + length name + 1 + length l),
            5 \<mapsto> (?q + length name + 1 + length l + 2,
                  ?q + length name + 1 + length l + 2 + length d))) # t'" by blast
  then have "ms templateErrorRegex (''template: '' @ name @ '':'' @ l @ '': '' @ d, 0, Map.empty) =
       ([], ?q + length name + 1 + length l + 2 + length d,
        ?c1(4 \<mapsto> (?q + length name + 1, ?q + length name + 1 + length l),
            5 \<mapsto> (?q + length name + 1 + length l + 2,
                  ?q + length name + 1 + length l + 2 + length d))) # t'"
    unfolding templateErrorRegex_parts by (simp only: ms_Seq_Lit add_0)
  from search_hit [OF this] show ?thesis by simp
qed

lemma search_line_char:
  assumes "list_all any_char name" "CHR '':'' \<notin> set name"
    "l \<noteq> []" "list_all is_digit l" "n \<noteq> []" "list_all is_digit n" "list_all any_char d"
  shows "\<exists>en c. search templateErrorRegex
                  (''template: '' @ name @ '':'' @ l @ '':'' @ n @ '': '' @ d) 0 = Some (0, en, c) \<and>
           c 3 = Some (length (''template: '' @ name @ '':''),
                       length (''template: '' @ name @ '':'') + length l) \<and>
           c 4 = Some (length (''template: '' @ name @ '':'' @ l @ '':''),
                       length (''template: '' @ name @ '':'' @ l @ '':'') + length n) \<and>
           c 5 = Some (length (''template: '' @ name @ '':'' @ l @ '':'' @ n @ '': ''),
                       length (''template: '' @ name @ '':'' @ l @ '':'' @ n @ '': '') + length d)"
proof -
  let ?q = "length ''template: ''"
  let ?p = "?q + length name + 1"
  let ?c1 = "Map.empty(1 \<mapsto> (?q, ?q + length name))"
  let ?c = "?c1(3 \<mapsto> (?p, ?p + length l), 2 \<mapsto> (?p, ?p + length l + 1),
                 4 \<mapsto> (?p + length l + 1, ?p + length l + 1 + length n),
                 5 \<mapsto> (?p + length l + 1 + length n + 2,
                       ?p + length l + 1 + length n + 2 + length d))"
  from line_char_first [OF assms(3,4,5,6,7), of ?p ?c1] obtain t where
    "ms linePart (l @ '':'' @ n @ '': '' @ d, ?p, ?c1) =
       ([], ?p + length l + 1 + length n + 2 + length d, ?c) # t" by blast
  from name_first [OF assms(1,2) this] obtain t' where
    "ms namePart (name @ '':'' @ l @ '':'' @ n @ '': '' @ d, ?q, Map.empty) =
       ([], ?p + length l + 1 + length n + 2 + length d, ?c) # t'" by blast
  then have "ms templateErrorRegex
       (''template: '' @ name @ '':'' @ l @ '':'' @ n @ '': '' @ d, 0, Map.empty) =
       ([], ?p + length l + 1 + length n + 2 + length d, ?c) # t'"
    unfolding templateErrorRegex_parts by (simp only: ms_Seq_Lit add_0)
  from search_hit [OF this] show ?thesis by simp
qed

lemma createTemplateError_line_only:
  assumes "list_all any_char name" "CHR '':'' \<notin> set name"
    "l \<noteq> []" "list_all is_digit l" "list_all any_char d"
  shows "createTemplateError (''template: '' @ name @ '':'' @ l @ '': '' @ d) level =
           \<lparr>Line = (if dec_val l < 2 ^ 63 then dec_val l - 1 else -1), Char = -1,
            Description = d, Level = level\<rparr>"
proof -
  let ?s = "''template: '' @ name @ '':'' @ l @ '': '' @ d"
  from search_line_only [OF assms] obtain en c where
    s: "search templateErrorRegex ?s 0 = Some (0, en, c)" and c3: "c 3 = None"
    and c4: "c 4 = Some (length (''template: '' @ name @ '':''),
                         length (''template: '' @ name @ '':'') + length l)"
    and c5: "c 5 = Some (length (''template: '' @ name @ '':'' @ l @ '': ''),
                         length (''template: '' @ name @ '':'' @ l @ '': '') + length d)"
    by blast
  have g3: "group_text ?s c 3 = []" using c3 by (simp add: group_text_def)
  have "slice ((''template: '' @ name @ '':'') @ l @ ('': '' @ d))
          (length (''template: '' @ name @ '':''))
          (length (''template: '' @ name @ '':'') + length l) = l" by (rule slice_mid)
  then have g4: "group_text ?s c 4 = l" using c4 by (simp add: group_text_def)
  have "slice ((''template: '' @ name @ '':'' @ l @ '': '') @ d @ [])
          (length (''template: '' @ name @ '':'' @ l @ '': ''))
          (length (''template: '' @ name @ '':'' @ l @ '': '') + length d) = d" by (rule slice_mid)
  then have g5: "group_text ?s c 5 = d" using c5 by (simp add: group_text_def)
  show ?thesis
    unfolding createTemplateError_match [OF s] g3 g4 g5
    using assms(3,4) by (simp add: Atoi_digits)
qed

lemma createTemplateError_line_char:
  assumes "list_all any_char name" "CHR '':'' \<notin> set name"
    "l \<noteq> []" "list_all is_digit l" "n \<noteq> []" "list_all is_digit n" "list_all any_char d"
  shows "createTemplateError (''template: '' @ name @ '':'' @ l @ '':'' @ n @ '': '' @ d) level =
           \<lparr>Line = (if dec_val l < 2 ^ 63 then dec_val l - 1 else -1),
            Char = (if dec_val n < 2 ^ 63 then dec_val n else -1),
            Description = d, Level = level\<rparr>"
proof -
  let ?s = "''template: '' @ name @ '':'' @ l @ '':'' @ n @ '': '' @ d"
  from search_line_char [OF assms] obtain en c where
    s: "search templateErrorRegex ?s 0 = Some (0, en, c)"
    and c3: "c 3 = Some (length (''template: '' @ name @ '':''),
                       length (''template: '' @ name @ '':'') + length l)"
    and c4: "c 4 = Some (length (''template: '' @ name @ '':'' @ l @ '':''),
                       length (''template: '' @ name @ '':'' @ l @ '':'') + length n)"
    and c5: "c 5 = Some (length (''template: '' @ name @ '':'' @ l @ '':'' @ n @ '': ''),
                       length (''template: '' @ name @ '':'' @ l @ '':'' @ n @ '': '') + length d)"
    by blast
  have "slice ((''template: '' @ name @ '':'') @ l @ ('':'' @ n @ '': '' @ d))
          (length (''template: '' @ name @ '':''))
          (length (''template: '' @ name @ '':'') + length l) = l" by (rule slice_mid)
  then have g3: "group_text ?s c 3 = l" using c3 by (simp add: group_text_def)
  have "slice ((''template: '' @ name @ '':'' @ l @ '':'') @ n @ ('': '' @ d))
          (length (''template: '' @ name @ '':'' @ l @ '':''))
          (length (''template: '' @ name @ '':'' @ l @ '':'') + length n) = n" by (rule slice_mid)
  then have g4: "group_text ?s c 4 = n" using c4 by (simp add: group_text_def)
  have "slice ((''template: '' @ name @ '':'' @ l @ '':'' @ n @ '': '') @ d @ [])
          (length (''template: '' @ name @ '':'' @ l @ '':'' @ n @ '': ''))
          (length (''template: '' @ name @ '':'' @ l @ '':'' @ n @ '': '') + length d) = d"
    by (rule slice_mid)
  then have g5: "group_text ?s c 5 = d" using c5 by (simp add: group_text_def)
  show ?thesis
    unfolding createTemplateError_match [OF s] g3 g4 g5
    using assms(3,4,5,6) by (simp add: Atoi_digits)
qed

text \<open>
  C3. The message \<open>template: X:12: some error\<close> gives line 11, character \<open>-1\<close> and
  the description \<open>some error\<close>; the message \<open>template: X:3:5: some error\<close> gives
  line 2 and character 5. In general, for a name without colon and line feed, numbers
  \<open>l\<close> and \<open>n\<close> written in decimal digits and a description without line feed, the
  line stored is the number \<open>l\<close> of the message less one and the character stored is
  the number \<open>n\<close> as given (each being \<open>-1\<close> when its number is beyond the range
  of \<open>int\<close>).
\<close>

theorem createTemplateError_positions:
  "createTemplateError ''template: X:12: some error'' level =
     \<lparr>Line = 11, Char = -1, Description = ''some error'', Level = level\<rparr> \<and>
   createTemplateError ''template: X:3:5: some error'' level =
     \<lparr>Line = 2, Char = 5, Description = ''some error'', Level = level\<rparr> \<and>
   (list_all any_char name \<and> CHR '':'' \<notin> set name \<and> l \<noteq> [] \<and> list_all is_digit l \<and>
    list_all any_char d \<longrightarrow>
      createTemplateError (''template: '' @ name @ '':'' @ l @ '': '' @ d) level =
        \<lparr>Line = (if dec_val l < 2 ^ 63 then dec_val l - 1 else -1), Char = -1,
         Description = d, Level = level\<rparr>) \<and>
   (list_all any_char name \<and> CHR '':'' \<notin> set name \<and> l \<noteq> [] \<and> list_all is_digit l \<and>
    n \<noteq> [] \<and> list_all is_digit n \<and> list_all any_char d \<longrightarrow>
      createTemplateError (''template: '' @ name @ '':'' @ l @ '':'' @ n @ '': '' @ d) level =
        \<lparr>Line = (if dec_val l < 2 ^ 63 then dec_val l - 1 else -1),
         Char = (if dec_val n < 2 ^ 63 then dec_val n else -1),
         Description = d, Level = level\<rparr>)"
proof -
  have a: "createTemplateError ''template: X:12: some error'' level =
     \<lparr>Line = 11, Char = -1, Description = ''some error'', Level = level\<rparr>" by code_simp
  have b: "createTemplateError ''template: X:3:5: some error'' level =
     \<lparr>Line = 2, Char = 5, Description = ''some error'', Level = level\<rparr>" by code_simp
  from a b createTemplateError_line_only [of name l d level]
    createTemplateError_line_char [of name l n d level]
  show ?thesis by blast
qed

theorem createTemplateError_positions_witness:
  "(list_all any_char ''input template'' \<and> CHR '':'' \<notin> set ''input template'' \<and>
    ''7'' \<noteq> [] \<and> list_all is_digit ''7'' \<and> ''13'' \<noteq> [] \<and> list_all is_digit ''13'' \<and>
    list_all any_char ''unexpected EOF'') \<and>
   createTemplateError ''template: input template:7: unexpected EOF'' parseErrorLevel =
     \<lparr>Line = 6, Char = -1, Description = ''unexpected EOF'', Level = parseErrorLevel\<rparr> \<and>
   createTemplateError ''template: input template:7:13: unexpected EOF'' execErrorLevel =
     \<lparr>Line = 6, Char = 13, Description = ''unexpected EOF'', Level = execErrorLevel\<rparr>"
  using createTemplateError_positions [where level = parseErrorLevel and name = "''input template''"
      and l = "''7''" and d = "''unexpected EOF''" and n = "''13''"]
    createTemplateError_positions [where level = execErrorLevel and name = "''input template''"
      and l = "''7''" and d = "''unexpected EOF''" and n = "''13''"]
  by (simp add: any_char_def is_digit_def dec_val_def digit_val_def)

section \<open>The token locator\<close>

lemma Index_occurrences:
  "Index s sub = (case occurrences s sub of [] \<Rightarrow> -1 | i # _ \<Rightarrow> int i)"
  by (induction s) (auto simp: Let_def split: list.splits)

lemma LastIndex_occurrences:
  "LastIndex s sub = (if occurrences s sub = [] then -1 else int (last (occurrences s sub)))"
  by (induction s) (auto simp: Let_def last_map)

lemma occurrences_increasing: "sorted_wrt (<) (occurrences s sub)"
  by (induction s) (auto simp: sorted_wrt_append sorted_wrt_map)

lemma occurrences_iff:
  "i \<in> set (occurrences s sub) \<longleftrightarrow> i \<le> length s \<and> take (length sub) (drop i s) = sub"
proof (induction s arbitrary: i)
  case Nil
  then show ?case by auto
next
  case (Cons x xs)
  show ?case
  proof (cases i)
    case 0
    then show ?thesis by auto
  next
    case (Suc j)
    then show ?thesis using Cons.IH [of j] by auto
  qed
qed

lemma hd_eq_last_increasing:
  assumes "sorted_wrt (<) (xs :: nat list)" "xs \<noteq> []"
  shows "hd xs = last xs \<longleftrightarrow> length xs = 1"
proof (cases xs)
  case Nil
  with assms show ?thesis by simp
next
  case (Cons a ys)
  show ?thesis
  proof (cases ys)
    case Nil
    with Cons show ?thesis by simp
  next
    case (Cons b zs)
    with \<open>xs = a # ys\<close> assms(1) have "a < last xs" by auto
    with Cons \<open>xs = a # ys\<close> show ?thesis by simp
  qed
qed

text \<open>The test \<open>lastChar == firstChar\<close>: the token occurs once, or not at all.\<close>

lemma Index_eq_LastIndex:
  "(if LastIndex s sub = Index s sub then Some (Index s sub) else None) =
     (case occurrences s sub of [] \<Rightarrow> Some (-1) | [i] \<Rightarrow> Some (int i) | _ \<Rightarrow> None)"
proof (cases "occurrences s sub")
  case Nil
  then show ?thesis by (simp add: Index_occurrences LastIndex_occurrences)
next
  case (Cons a ys)
  then have ne: "occurrences s sub \<noteq> []" by simp
  from hd_eq_last_increasing [OF occurrences_increasing ne]
  have "hd (occurrences s sub) = last (occurrences s sub) \<longleftrightarrow> length (occurrences s sub) = 1" .
  with Cons show ?thesis
    by (cases ys) (auto simp: Index_occurrences LastIndex_occurrences)
qed

lemma ms_Cls_fail: "r = [] \<or> \<not> P (hd r) \<Longrightarrow> ms (Cls P) (r, p, c) = []"
  by (cases r) auto

lemma findToken_at_quote:
  assumes "is_quote q1" "is_quote q2" "tok \<noteq> []" "list_all any_char tok"
    "\<forall>x \<in> set v. \<not> is_quote x" "list_all any_char v"
  shows "\<exists>c' t. ms findTokenRegex (q1 # tok @ q2 # v, p, c) =
                  (v, p + length tok + 2, c') # t"
proof -
  from assms(3,4) obtain x tok' where tok: "tok = x # tok'" "any_char x" "list_all any_char tok'"
    by (cases tok) auto
  let ?upd = "\<lambda>(r', q', c'). (r', q', c'(1 \<mapsto> (Suc p, q')))"
  from starG_split [OF tok(3), of "q2 # v" "Suc (Suc p)" c] obtain A B where
    e: "starG any_char (tok' @ q2 # v) (Suc (Suc p)) c =
          A @ (q2 # v, Suc (Suc p) + length tok', c) # B"
    and a: "\<forall>st \<in> set A. \<exists>w. w \<noteq> [] \<and> list_all any_char w \<and> q2 # v = w @ fst st" by blast
  from e tok have g: "ms (Grp 1 (Plus any_char)) (tok @ q2 # v, Suc p, c) =
      map ?upd A @ (q2 # v, Suc (Suc p) + length tok', c(1 \<mapsto> (Suc p, Suc (Suc p) + length tok'))) #
      map ?upd B"
    by simp
  have fail: "\<forall>z \<in> set (map ?upd A). ms (Cls is_quote) z = []"
  proof
    fix z assume "z \<in> set (map ?upd A)"
    from fst_Grp_map [OF this] a obtain w where w: "w \<noteq> []" "q2 # v = w @ fst z" by force
    then obtain w' where "w = q2 # w'" "v = w' @ fst z" by (cases w) auto
    then have "set (fst z) \<subseteq> set v" by auto
    with assms(5) have "fst z = [] \<or> \<not> is_quote (hd (fst z))" by (cases "fst z") auto
    then show "ms (Cls is_quote) z = []" using ms_Cls_fail [of "fst z" is_quote] by (cases z) auto
  qed
  have ok: "ms (Cls is_quote)
              (q2 # v, Suc (Suc p) + length tok', c(1 \<mapsto> (Suc p, Suc (Suc p) + length tok'))) =
            (v, Suc (Suc (Suc p)) + length tok', c(1 \<mapsto> (Suc p, Suc (Suc p) + length tok'))) # []"
    using assms(2) by simp
  from ms_Seq_first [OF g fail ok] obtain t where
    "ms (Seq (Grp 1 (Plus any_char)) (Cls is_quote)) (tok @ q2 # v, Suc p, c) =
       (v, Suc (Suc (Suc p)) + length tok', c(1 \<mapsto> (Suc p, Suc (Suc p) + length tok'))) # t"
    by blast
  with assms(1) tok show ?thesis by (simp add: findTokenRegex_def)
qed

lemma findToken_no_quote:
  "r = [] \<or> \<not> is_quote (hd r) \<Longrightarrow> ms findTokenRegex (r, p, c) = []"
  by (cases r) (auto simp: findTokenRegex_def)

lemma FindStringIndex_findToken:
  assumes "\<forall>x \<in> set u. \<not> is_quote x" "is_quote q1" "is_quote q2" "tok \<noteq> []"
    "list_all any_char tok" "\<forall>x \<in> set v. \<not> is_quote x" "list_all any_char v"
  shows "FindStringIndex findTokenRegex (u @ [q1] @ tok @ [q2] @ v) =
           Some (length u, length u + length tok + 2)"
proof -
  let ?rest = "q1 # tok @ q2 # v"
  have "\<forall>j < length u. ms findTokenRegex (drop j u @ ?rest, 0 + j, Map.empty) = []"
  proof (intro allI impI)
    fix j assume j: "j < length u"
    then obtain y ys where y: "drop j u = y # ys" by (cases "drop j u") auto
    then have "y \<in> set u" by (metis in_set_dropD list.set_intros(1))
    with assms(1) y show "ms findTokenRegex (drop j u @ ?rest, 0 + j, Map.empty) = []"
      by (simp add: findToken_no_quote)
  qed
  from search_skip [OF this] have s: "search findTokenRegex (u @ ?rest) 0 =
      search findTokenRegex ?rest (length u)" by simp
  from findToken_at_quote [OF assms(2,3,4,5,6,7), of "length u" Map.empty] obtain c' t where
    "ms findTokenRegex (?rest, length u, Map.empty) = (v, length u + length tok + 2, c') # t"
    by blast
  from search_hit [OF this] s show ?thesis by (simp add: FindStringIndex_def)
qed

text \<open>A description in which the pattern is found has a first and a last quote with a
  non-empty text between them.\<close>

lemma findToken_decomposition:
  assumes "matchesGrammar findTokenRegex D"
  shows "\<exists>u q1 tok q2 v. D = u @ [q1] @ tok @ [q2] @ v \<and> is_quote q1 \<and> is_quote q2 \<and>
           tok \<noteq> [] \<and> (\<forall>x \<in> set u. \<not> is_quote x) \<and> (\<forall>x \<in> set v. \<not> is_quote x)"
proof -
  from assms obtain a w b where D: "D = a @ w @ b" and w: "w \<in> lang findTokenRegex"
    unfolding matchesGrammar_def by blast
  from w obtain x y ys z where wz: "w = x # (y # ys) @ [z]" "is_quote x" "is_quote z"
    unfolding findTokenRegex_def lang.simps(3) [of "Cls is_quote"] lang.simps(8)
      lang.simps(3) [of "Plus any_char"] lang_Plus by auto
  have "\<exists>e \<in> set D. is_quote e" using D wz by auto
  from split_list_first_prop [OF this] obtain u q1 r where
    u: "D = u @ q1 # r" "is_quote q1" "\<forall>e \<in> set u. \<not> is_quote e" by blast
  have "length u \<le> length a"
  proof (rule ccontr)
    assume "\<not> length u \<le> length a"
    then have "length a < length u" by simp
    then have "u ! length a = D ! length a" using u(1) by (simp add: nth_append)
    also have "\<dots> = x" using D wz by (simp add: nth_append)
    finally have "x \<in> set u" using \<open>length a < length u\<close> by (metis nth_mem)
    with u(3) wz(2) show False by blast
  qed
  have "r = drop (Suc (length u)) D" using u(1) by simp
  also have "\<dots> = drop (Suc (length u)) ((a @ [x]) @ (y # ys @ z # b))"
    using D wz by simp
  also have "\<dots> = drop (Suc (length u)) (a @ [x]) @ y # ys @ z # b"
    using \<open>length u \<le> length a\<close> by (simp only: drop_append) simp
  finally have "r = (drop (Suc (length u)) (a @ [x]) @ y # ys) @ z # b" by simp
  then obtain r0 where r: "r = (r0 @ y # ys) @ z # b" by blast
  then have "\<exists>e \<in> set r. is_quote e" using wz(3) by auto
  from split_list_last_prop [OF this] obtain m q2 v where
    m: "r = m @ q2 # v" "is_quote q2" "\<forall>e \<in> set v. \<not> is_quote e" by blast
  have "m \<noteq> []"
  proof
    assume "m = []"
    with m(1) have "v = tl r" by simp
    also have "\<dots> = tl (r0 @ y # ys) @ z # b"
      unfolding r by (cases r0) simp_all
    finally have "z \<in> set v" by simp
    with m(3) wz(3) show False by blast
  qed
  with u m have "D = u @ [q1] @ m @ [q2] @ v \<and> is_quote q1 \<and> is_quote q2 \<and>
           m \<noteq> [] \<and> (\<forall>x \<in> set u. \<not> is_quote x) \<and> (\<forall>x \<in> set v. \<not> is_quote x)" by simp
  then show ?thesis by blast
qed

lemma locateToken_found:
  assumes "Char tplErr = -1" "0 \<le> Line tplErr" "Line tplErr < int (length lines)"
    "FindStringIndex findTokenRegex (Description tplErr) = Some (a, b)"
    "slice (Description tplErr) (a + 1) (b - 1) = tok"
  shows "locateToken lines tplErr =
           Inr (tplErr\<lparr>Char := (case occurrences (lines ! nat (Line tplErr)) tok of
                                    [i] \<Rightarrow> int i | _ \<Rightarrow> -1)\<rparr>)"
proof -
  let ?l = "lines ! nat (Line tplErr)"
  have i: "index_line lines (Line tplErr) = Inr ?l" using assms(2,3) by (simp add: index_line_def)
  have u: "tplErr\<lparr>Char := -1\<rparr> = tplErr" using assms(1) by simp
  have "locateToken lines tplErr =
          (case (if LastIndex ?l tok = Index ?l tok then Some (Index ?l tok) else None) of
             Some k \<Rightarrow> Inr (tplErr\<lparr>Char := k\<rparr>) | None \<Rightarrow> Inr tplErr)"
    using assms(1,4,5) i by (simp add: locateToken_def Let_def)
  also have "\<dots> = Inr (tplErr\<lparr>Char := (case occurrences ?l tok of [i] \<Rightarrow> int i | _ \<Rightarrow> -1)\<rparr>)"
    unfolding Index_eq_LastIndex using u by (simp split: list.splits)
  finally show ?thesis .
qed

text \<open>The description of a diagnostic that is not misunderstood has no line feed.\<close>

lemma createTemplateError_description:
  assumes "Level (createTemplateError err level) \<noteq> misunderstoodError"
  shows "list_all any_char (Description (createTemplateError err level))"
proof (cases "search templateErrorRegex err 0")
  case None
  with assms show ?thesis by (simp add: createTemplateError_nomatch)
next
  case (Some res)
  obtain st en c where "res = (st, en, c)" by (cases res) blast
  with Some have s: "search templateErrorRegex err 0 = Some (st, en, c)" by simp
  from search_groups(2) [OF s, of 5]
  have "c 5 = None \<or> group_text err c 5 \<in> glang 5 templateErrorRegex" .
  then have "list_all any_char (group_text err c 5)"
    by (auto simp: templateErrorRegex_groups group_text_def)
  then show ?thesis by (simp add: createTemplateError_match [OF s])
qed

lemma locateToken_span:
  assumes "Char tplErr = -1" "list_all any_char (Description tplErr)"
    "0 \<le> Line tplErr" "Line tplErr < int (length lines)"
  shows "(\<forall>u q1 tok q2 v.
            Description tplErr = u @ [q1] @ tok @ [q2] @ v \<and> is_quote q1 \<and> is_quote q2 \<and>
            tok \<noteq> [] \<and> (\<forall>x \<in> set u. \<not> is_quote x) \<and> (\<forall>x \<in> set v. \<not> is_quote x) \<longrightarrow>
            locateToken lines tplErr =
              Inr (tplErr\<lparr>Char := (case occurrences (lines ! nat (Line tplErr)) tok of
                                       [i] \<Rightarrow> int i | _ \<Rightarrow> -1)\<rparr>)) \<and>
         (\<not> (\<exists>u q1 tok q2 v.
            Description tplErr = u @ [q1] @ tok @ [q2] @ v \<and> is_quote q1 \<and> is_quote q2 \<and>
            tok \<noteq> [] \<and> (\<forall>x \<in> set u. \<not> is_quote x) \<and> (\<forall>x \<in> set v. \<not> is_quote x)) \<longrightarrow>
            locateToken lines tplErr = Inr tplErr)"
proof (intro conjI allI impI)
  fix u q1 tok q2 v
  assume h: "Description tplErr = u @ [q1] @ tok @ [q2] @ v \<and> is_quote q1 \<and> is_quote q2 \<and>
            tok \<noteq> [] \<and> (\<forall>x \<in> set u. \<not> is_quote x) \<and> (\<forall>x \<in> set v. \<not> is_quote x)"
  then have D: "Description tplErr = u @ [q1] @ tok @ [q2] @ v" by blast
  from assms(2) D have nl: "list_all any_char tok" "list_all any_char v" by simp_all
  from h nl have f: "FindStringIndex findTokenRegex (Description tplErr) =
      Some (length u, length u + length tok + 2)"
    unfolding D by (intro FindStringIndex_findToken) blast+
  have "slice ((u @ [q1]) @ tok @ ([q2] @ v)) (length (u @ [q1])) (length (u @ [q1]) + length tok)
          = tok" by (rule slice_mid)
  then have t: "slice (Description tplErr) (length u + 1) (length u + length tok + 2 - 1) = tok"
    unfolding D by simp
  from locateToken_found [OF assms(1,3,4) f t]
  show "locateToken lines tplErr =
              Inr (tplErr\<lparr>Char := (case occurrences (lines ! nat (Line tplErr)) tok of
                                       [i] \<Rightarrow> int i | _ \<Rightarrow> -1)\<rparr>)" .
next
  assume n: "\<not> (\<exists>u q1 tok q2 v.
            Description tplErr = u @ [q1] @ tok @ [q2] @ v \<and> is_quote q1 \<and> is_quote q2 \<and>
            tok \<noteq> [] \<and> (\<forall>x \<in> set u. \<not> is_quote x) \<and> (\<forall>x \<in> set v. \<not> is_quote x))"
  have "\<not> matchesGrammar findTokenRegex (Description tplErr)"
    using findToken_decomposition [of "Description tplErr"] n by blast
  then have "search findTokenRegex (Description tplErr) 0 = None"
    by (rule iffD2 [OF search_None_lang])
  then show "locateToken lines tplErr = Inr tplErr"
    by (simp add: locateToken_def FindStringIndex_def)
qed

text \<open>
  C5, as amended. For a diagnostic of the extractor that is not misunderstood, has
  character \<open>-1\<close> and a line that is a line of the text: the candidate token is the
  greedy span, the text between the first and the last quote character of the
  description, when that text is not empty. If the token occurs exactly once in the line
  of the diagnostic, the character becomes its index; if it occurs more than once or not
  at all, and if the description has no such span, the character remains \<open>-1\<close>.
\<close>

theorem locateToken_greedy_span:
  assumes "tplErr = createTemplateError err level" "Level tplErr \<noteq> misunderstoodError"
    "Char tplErr = -1" "0 \<le> Line tplErr" "Line tplErr < int (length lines)"
  shows "(\<forall>u q1 tok q2 v.
            Description tplErr = u @ [q1] @ tok @ [q2] @ v \<and> is_quote q1 \<and> is_quote q2 \<and>
            tok \<noteq> [] \<and> (\<forall>x \<in> set u. \<not> is_quote x) \<and> (\<forall>x \<in> set v. \<not> is_quote x) \<longrightarrow>
            locateToken lines tplErr =
              Inr (tplErr\<lparr>Char := (case occurrences (lines ! nat (Line tplErr)) tok of
                                       [i] \<Rightarrow> int i | _ \<Rightarrow> -1)\<rparr>)) \<and>
         (\<not> (\<exists>u q1 tok q2 v.
            Description tplErr = u @ [q1] @ tok @ [q2] @ v \<and> is_quote q1 \<and> is_quote q2 \<and>
            tok \<noteq> [] \<and> (\<forall>x \<in> set u. \<not> is_quote x) \<and> (\<forall>x \<in> set v. \<not> is_quote x)) \<longrightarrow>
            locateToken lines tplErr = Inr tplErr)"
proof -
  from assms(1,2) have "list_all any_char (Description tplErr)"
    using createTemplateError_description [of err level] by simp
  from locateToken_span [OF assms(3) this assms(4,5)] show ?thesis .
qed

theorem locateToken_greedy_span_witness:
  "locateToken [''{{a b}}''] (createTemplateError twoQuotedSpansMessage parseErrorLevel) =
   Inr \<lparr>Line = 0,
        Char = (case occurrences ''{{a b}}'' (''a'' @ [CHR 0x22] @ '' before '' @ [CHR 0x22] @ ''b'') of
                  [i] \<Rightarrow> int i | _ \<Rightarrow> -1),
        Description = twoQuotedSpans, Level = parseErrorLevel\<rparr> \<and>
   locateToken [''{{foo}}'']
     (createTemplateError (undefinedFunctionMessage ''input template'' ''1'' ''foo'') parseErrorLevel) =
   Inr \<lparr>Line = 0, Char = 2, Description = undefinedFunctionDescription ''foo'',
        Level = parseErrorLevel\<rparr> \<and>
   locateToken [''{{}}'']
     (createTemplateError ''template: input template:1: missing value for command'' parseErrorLevel) =
   Inr \<lparr>Line = 0, Char = -1, Description = ''missing value for command'',
        Level = parseErrorLevel\<rparr>"
proof -
  let ?d1 = "\<lparr>Line = 0, Char = -1, Description = twoQuotedSpans, Level = parseErrorLevel\<rparr>"
  let ?d2 = "\<lparr>Line = 0, Char = -1, Description = undefinedFunctionDescription ''foo'',
      Level = parseErrorLevel\<rparr>"
  let ?d3 = "\<lparr>Line = 0, Char = -1, Description = ''missing value for command'',
      Level = parseErrorLevel\<rparr>"
  have e1: "?d1 = createTemplateError twoQuotedSpansMessage parseErrorLevel" by code_simp
  have e2: "?d2 = createTemplateError (undefinedFunctionMessage ''input template'' ''1'' ''foo'')
                    parseErrorLevel" by code_simp
  have e3: "?d3 = createTemplateError ''template: input template:1: missing value for command''
                    parseErrorLevel" by code_simp
  have h1: "Level ?d1 \<noteq> misunderstoodError" "Char ?d1 = -1" "0 \<le> Line ?d1"
    "Line ?d1 < int (length [''{{a b}}''])" by simp_all
  have h2: "Level ?d2 \<noteq> misunderstoodError" "Char ?d2 = -1" "0 \<le> Line ?d2"
    "Line ?d2 < int (length [''{{foo}}''])" by simp_all
  have h3: "Level ?d3 \<noteq> misunderstoodError" "Char ?d3 = -1" "0 \<le> Line ?d3"
    "Line ?d3 < int (length [''{{}}''])" by simp_all
  have n3: "\<not> (\<exists>u q1 tok q2 v.
            Description ?d3 = u @ [q1] @ tok @ [q2] @ v \<and> is_quote q1 \<and> is_quote q2 \<and>
            tok \<noteq> [] \<and> (\<forall>x \<in> set u. \<not> is_quote x) \<and> (\<forall>x \<in> set v. \<not> is_quote x))"
  proof
    assume "\<exists>u q1 tok q2 v.
            Description ?d3 = u @ [q1] @ tok @ [q2] @ v \<and> is_quote q1 \<and> is_quote q2 \<and>
            tok \<noteq> [] \<and> (\<forall>x \<in> set u. \<not> is_quote x) \<and> (\<forall>x \<in> set v. \<not> is_quote x)"
    then obtain u q1 tok q2 v where e: "Description ?d3 = u @ [q1] @ tok @ [q2] @ v"
      and q: "is_quote q1" by blast
    from e have "q1 \<in> set (Description ?d3)" by simp
    with q show False by (auto simp: is_quote_def)
  qed
  have a: "locateToken [''{{a b}}''] ?d1 =
      Inr (?d1\<lparr>Char := (case occurrences ([''{{a b}}''] ! nat (Line ?d1))
                                (''a'' @ [CHR 0x22] @ '' before '' @ [CHR 0x22] @ ''b'') of
                           [i] \<Rightarrow> int i | _ \<Rightarrow> -1)\<rparr>)"
    by (rule locateToken_greedy_span [OF e1 h1, THEN conjunct1, rule_format,
          where u = "''unexpected ''" and ?q1.0 = "CHR 0x22" and ?q2.0 = "CHR 0x22" and v = "[]"])
       (simp add: twoQuotedSpans_def is_quote_def)
  have b: "locateToken [''{{foo}}''] ?d2 =
      Inr (?d2\<lparr>Char := (case occurrences ([''{{foo}}''] ! nat (Line ?d2)) ''foo'' of
                           [i] \<Rightarrow> int i | _ \<Rightarrow> -1)\<rparr>)"
    by (rule locateToken_greedy_span [OF e2 h2, THEN conjunct1, rule_format,
          where u = "''function ''" and ?q1.0 = "CHR 0x22" and ?q2.0 = "CHR 0x22"
            and v = "'' not defined''"])
       (simp add: is_quote_def undefinedFunctionDescription_def)
  have c: "locateToken [''{{}}''] ?d3 = Inr ?d3"
    using locateToken_greedy_span [OF e3 h3, THEN conjunct2] n3 by blast
  have o: "occurrences ''{{foo}}'' ''foo'' = [2]" by code_simp
  from a b c o show ?thesis unfolding e1 [symmetric] e2 [symmetric] e3 [symmetric] by simp
qed

text \<open>
  C5 as stated fails at the description \<open>unexpected "a" before "b"\<close> and the line
  \<open>{{a b}}\<close>: the first span matched without greed is \<open>a\<close>, which occurs exactly once
  in the line, at index 2, and the character remains \<open>-1\<close>, as the token of the program
  is \<open>a" before "b\<close>.
\<close>

theorem locateToken_greedy_span_counterexample:
  "FindStringSubmatch nonGreedyTokenRegex 1
     (Description (createTemplateError twoQuotedSpansMessage parseErrorLevel)) =
     Some [[CHR 0x22] @ ''a'' @ [CHR 0x22], ''a''] \<and>
   occurrences ''{{a b}}'' ''a'' = [2] \<and>
   Level (createTemplateError twoQuotedSpansMessage parseErrorLevel) \<noteq> misunderstoodError \<and>
   locateToken [''{{a b}}''] (createTemplateError twoQuotedSpansMessage parseErrorLevel) =
   Inr \<lparr>Line = 0, Char = -1, Description = twoQuotedSpans, Level = parseErrorLevel\<rparr>"
  by code_simp

section \<open>Healing undefined functions up to the depth bound\<close>

lemma functionNotFound_first:
  assumes "n \<noteq> []" "list_all any_char n"
  shows "\<exists>t. ms functionNotFoundRegex (undefinedFunctionDescription n, 0, Map.empty) =
              ([], length (undefinedFunctionDescription n),
               Map.empty(1 \<mapsto> (length (''function '' @ [CHR 0x22]),
                                length (''function '' @ [CHR 0x22]) + length n))) # t"
proof -
  let ?suf = "CHR 0x22 # '' not defined''"
  let ?q = "length (''function '' @ [CHR 0x22])"
  let ?upd = "\<lambda>(r', q', c'). (r', q', c'(1 \<mapsto> (?q, q')))"
  from assms obtain x n' where n: "n = x # n'" "any_char x" "list_all any_char n'"
    by (cases n) auto
  from starG_split [OF n(3), of ?suf "Suc ?q" Map.empty] obtain A B where
    e: "starG any_char (n' @ ?suf) (Suc ?q) Map.empty = A @ (?suf, Suc ?q + length n', Map.empty) # B"
    and a: "\<forall>st \<in> set A. \<exists>w. w \<noteq> [] \<and> list_all any_char w \<and> ?suf = w @ fst st" by blast
  from e n have g: "ms (Grp 1 (Plus any_char)) (n @ ?suf, ?q, Map.empty) =
      map ?upd A @ (?suf, ?q + length n, Map.empty(1 \<mapsto> (?q, ?q + length n))) # map ?upd B"
    by simp
  have fail: "\<forall>z \<in> set (map ?upd A). ms (Lit ?suf) z = []"
  proof
    fix z assume "z \<in> set (map ?upd A)"
    from fst_Grp_map [OF this] a obtain w where w: "w \<noteq> []" "?suf = w @ fst z" by force
    then have "length ?suf = length w + length (fst z)" "0 < length w"
      by (simp_all del: list.size flip: length_append)
    then have lt: "length (fst z) < length ?suf" by linarith
    have "take (length ?suf) (fst z) \<noteq> ?suf"
    proof
      assume "take (length ?suf) (fst z) = ?suf"
      then have "length (take (length ?suf) (fst z)) = length ?suf" by (rule arg_cong)
      with lt show False by (simp only: length_take)
    qed
    then show "ms (Lit ?suf) z = []" by (cases z) (simp del: take_Suc_Cons)
  qed
  have ok: "ms (Lit ?suf) (?suf, ?q + length n, Map.empty(1 \<mapsto> (?q, ?q + length n))) =
      ([], ?q + length n + length ?suf, Map.empty(1 \<mapsto> (?q, ?q + length n))) # []"
    by simp
  from ms_Seq_first [OF g fail ok] obtain t where
    "ms (Seq (Grp 1 (Plus any_char)) (Lit ?suf)) (n @ ?suf, ?q, Map.empty) =
       ([], ?q + length n + length ?suf, Map.empty(1 \<mapsto> (?q, ?q + length n))) # t" by blast
  then have "ms functionNotFoundRegex ((''function '' @ [CHR 0x22]) @ n @ ?suf, 0, Map.empty) =
       ([], ?q + length n + length ?suf, Map.empty(1 \<mapsto> (?q, ?q + length n))) # t"
    unfolding functionNotFoundRegex_def by (simp only: ms_Seq_Lit add_0)
  then show ?thesis by (simp add: undefinedFunctionDescription_def)
qed

lemma functionNotFound_submatch:
  assumes "n \<noteq> []" "list_all any_char n"
  shows "FindStringSubmatch functionNotFoundRegex 1 (undefinedFunctionDescription n) =
           Some [undefinedFunctionDescription n, n]"
proof -
  let ?D = "undefinedFunctionDescription n"
  let ?q = "length (''function '' @ [CHR 0x22])"
  from functionNotFound_first [OF assms] obtain t where
    "ms functionNotFoundRegex (?D, 0, Map.empty) =
       ([], length ?D, Map.empty(1 \<mapsto> (?q, ?q + length n))) # t" by blast
  from search_hit [OF this] have s: "search functionNotFoundRegex ?D 0 =
      Some (0, length ?D, Map.empty(1 \<mapsto> (?q, ?q + length n)))" .
  have "slice ((''function '' @ [CHR 0x22]) @ n @ (CHR 0x22 # '' not defined'')) ?q (?q + length n) = n"
    by (rule slice_mid)
  then have g: "group_text ?D (Map.empty(1 \<mapsto> (?q, ?q + length n))) 1 = n"
    by (simp add: group_text_def undefinedFunctionDescription_def)
  have w: "slice ?D 0 (length ?D) = ?D" by (simp add: slice_def)
  have u: "[1..<Suc 1] = [1]" by simp
  show ?thesis unfolding FindStringSubmatch_def s u using g w by simp
qed

text \<open>One stub heal: the diagnostic is recorded and the text is parsed again, one level
  deeper, against the template with the stub.\<close>

lemma stub_step:
  assumes nm: "list_all any_char name" "CHR '':'' \<notin> set name"
    and l: "l \<noteq> []" "list_all is_digit l" "1 \<le> dec_val l"
      "dec_val l \<le> int (length (SplitLines text))" "dec_val l < 2 ^ 63"
    and n: "n \<noteq> []" "list_all any_char n"
    and p: "Parse E t text = Inl (undefinedFunctionMessage name l n)"
    and f: "Funcs E t n = Some t1"
    and d: "depth < maxFixes"
  shows "parseInternal E text t depth =
           (case parseInternal E text t1 (depth + 1) of
              Inl e \<Rightarrow> Inl e
            | Inr (t', es) \<Rightarrow> Inr (t', stubDiagnostic text (l, n) # es))"
proof -
  let ?D = "undefinedFunctionDescription n"
  let ?d0 = "\<lparr>Line = dec_val l - 1, Char = -1, Description = ?D, Level = parseErrorLevel\<rparr>"
  have dn: "list_all any_char ?D" using n(2) by (simp add: undefinedFunctionDescription_def any_char_def)
  have c: "createTemplateError (undefinedFunctionMessage name l n) parseErrorLevel = ?d0"
    unfolding undefinedFunctionMessage_def
    using createTemplateError_line_only [OF nm l(1,2) dn, of parseErrorLevel] l(5) by simp
  have lv: "Level (createTemplateError (undefinedFunctionMessage name l n) parseErrorLevel)
              \<noteq> misunderstoodError" unfolding c by simp
  have fi: "FindStringIndex findTokenRegex (Description ?d0) =
              Some (length ''function '', length ''function '' + length n + 2)"
    using FindStringIndex_findToken [of "''function ''" "CHR 0x22" "CHR 0x22" n "'' not defined''"] n
    by (simp add: undefinedFunctionDescription_def is_quote_def any_char_def)
  have "slice ((''function '' @ [CHR 0x22]) @ n @ (CHR 0x22 # '' not defined''))
          (length (''function '' @ [CHR 0x22])) (length (''function '' @ [CHR 0x22]) + length n) = n"
    by (rule slice_mid)
  then have tk: "slice (Description ?d0) (length ''function '' + 1)
                   (length ''function '' + length n + 2 - 1) = n"
    by (simp add: undefinedFunctionDescription_def)
  have lt: "locateToken (SplitLines text) ?d0 = Inr (stubDiagnostic text (l, n))"
    using locateToken_found [OF _ _ _ fi tk, of "SplitLines text"] l(3,4)
    by (simp add: stubDiagnostic_def)
  have sm: "FindStringSubmatch functionNotFoundRegex 1 (Description (stubDiagnostic text (l, n))) =
              Some [?D, n]"
    using functionNotFound_submatch [OF n] by (simp add: stubDiagnostic_def)
  have fn: "Funcs E t ([?D, n] ! 1) = Some t1" using f by simp
  show ?thesis
    by (rule parseInternal_stub [OF d p lv _ sm fn]) (simp add: c lt)
qed

lemma stub_chain:
  assumes "list_all any_char name" "CHR '':'' \<notin> set name"
  shows "undefinedFunctions E text name t errs t' \<Longrightarrow>
     (depth + int (length errs) = maxFixes \<longrightarrow>
        parseInternal E text t depth = Inr (t', map (stubDiagnostic text) errs)) \<and>
     (depth + int (length errs) < maxFixes \<and> Parse E t' text = Inr tp \<longrightarrow>
        parseInternal E text t depth = Inr (tp, map (stubDiagnostic text) errs))"
proof (induction errs arbitrary: t depth)
  case Nil
  then show ?case by (simp add: parseInternal_refused parseInternal_parsed)
next
  case (Cons e es)
  obtain l n where e: "e = (l, n)" by (cases e) blast
  from Cons.prems e obtain t1 where
    p: "Parse E t text = Inl (undefinedFunctionMessage name l n)"
    and l: "l \<noteq> []" "list_all is_digit l" "1 \<le> dec_val l"
      "dec_val l \<le> int (length (SplitLines text))" "dec_val l < 2 ^ 63"
    and n: "n \<noteq> []" "list_all any_char n"
    and f: "Funcs E t n = Some t1" and r: "undefinedFunctions E text name t1 es t'"
    by (auto split: option.splits)
  note IH = Cons.IH [OF r, of "depth + 1"]
  show ?case
  proof (intro conjI impI)
    assume a: "depth + int (length (e # es)) = maxFixes"
    then have d: "depth < maxFixes" by simp
    from a IH have "parseInternal E text t1 (depth + 1) = Inr (t', map (stubDiagnostic text) es)"
      by simp
    with stub_step [OF assms l n p f d] e
    show "parseInternal E text t depth = Inr (t', map (stubDiagnostic text) (e # es))" by simp
  next
    assume a: "depth + int (length (e # es)) < maxFixes \<and> Parse E t' text = Inr tp"
    then have d: "depth < maxFixes" by simp
    from a IH have "parseInternal E text t1 (depth + 1) = Inr (tp, map (stubDiagnostic text) es)"
      by simp
    with stub_step [OF assms l n p f d] e
    show "parseInternal E text t depth = Inr (tp, map (stubDiagnostic text) (e # es))" by simp
  qed
qed

lemma ten_chain:
  "undefinedFunctions (callsEngine tenNames) tenCalls ''input template''
     (newTemplate ''input template'') (map (Pair ''1'') tenNames)
     \<lparr>tname = ''input template'', tfuncs = tenNames, tbody = None\<rparr>"
  by (simp add: tenNames_def tenCalls_def callsEngine_def Parse_scripted Funcs_scripted
        undefinedFunction_def undefinedFunctionMessage_def undefinedFunctionDescription_def
        newTemplate_def goodName_def is_digit_def any_char_def dec_val_def digit_val_def)

lemma nine_chain:
  "undefinedFunctions (callsEngine (butlast tenNames)) nineCalls ''input template''
     (newTemplate ''input template'') (map (Pair ''1'') (butlast tenNames))
     \<lparr>tname = ''input template'', tfuncs = butlast tenNames, tbody = None\<rparr>"
  by (simp add: tenNames_def nineCalls_def callsEngine_def Parse_scripted Funcs_scripted
        undefinedFunction_def undefinedFunctionMessage_def undefinedFunctionDescription_def
        newTemplate_def goodName_def is_digit_def any_char_def dec_val_def digit_val_def)

text \<open>
  C2, as amended. For a text with exactly \<open>maxFixes\<close> undefined-function errors, each
  cured by one function stub, the top-level call returns exactly \<open>maxFixes\<close>
  diagnostics of level \<open>parseErrorLevel\<close>, one per error and in their order, and no
  other; the template returned with them is the base template with the \<open>maxFixes\<close>
  stubs registered, against which the text has not been parsed, since the call at depth
  \<open>maxFixes\<close> returns before parsing. With fewer than \<open>maxFixes\<close> such errors, and
  a text that parses once they are cured, the template returned is the parsed one.
\<close>

theorem parse_ten_undefined_functions:
  "list_all any_char name \<Longrightarrow> CHR '':'' \<notin> set name \<Longrightarrow>
   undefinedFunctions E text name t errs t' \<Longrightarrow>
   (int (length errs) = maxFixes \<longrightarrow>
      parse E text t = Inr (t', map (stubDiagnostic text) errs)) \<and>
   (int (length errs) < maxFixes \<longrightarrow>
      (\<forall>tp. Parse E t' text = Inr tp \<longrightarrow>
         parse E text t = Inr (tp, map (stubDiagnostic text) errs)))"
  using stub_chain [where depth = 0 and E = E and t = t and errs = errs and t' = t'
      and name = name]
  unfolding parse_def by auto

theorem parse_ten_undefined_functions_witness:
  "(list_all any_char ''input template'' \<and> CHR '':'' \<notin> set ''input template'') \<and>
   undefinedFunctions (callsEngine tenNames) tenCalls ''input template''
     (newTemplate ''input template'') (map (Pair ''1'') tenNames)
     \<lparr>tname = ''input template'', tfuncs = tenNames, tbody = None\<rparr> \<and>
   int (length (map (Pair ''1'') tenNames)) = maxFixes \<and>
   parse (callsEngine tenNames) tenCalls (newTemplate ''input template'') =
     Inr (\<lparr>tname = ''input template'', tfuncs = tenNames, tbody = None\<rparr>,
          map (stubDiagnostic tenCalls) (map (Pair ''1'') tenNames)) \<and>
   undefinedFunctions (callsEngine (butlast tenNames)) nineCalls ''input template''
     (newTemplate ''input template'') (map (Pair ''1'') (butlast tenNames))
     \<lparr>tname = ''input template'', tfuncs = butlast tenNames, tbody = None\<rparr> \<and>
   int (length (map (Pair ''1'') (butlast tenNames))) < maxFixes \<and>
   parse (callsEngine (butlast tenNames)) nineCalls (newTemplate ''input template'') =
     Inr (\<lparr>tname = ''input template'', tfuncs = butlast tenNames, tbody = Some nineCalls\<rparr>,
          map (stubDiagnostic nineCalls) (map (Pair ''1'') (butlast tenNames)))"
proof -
  have n: "list_all any_char ''input template''" "CHR '':'' \<notin> set ''input template''"
    by (simp_all add: any_char_def)
  have l10: "int (length (map (Pair ''1'') tenNames)) = maxFixes"
    by (simp add: tenNames_def maxFixes_def)
  have l9: "int (length (map (Pair ''1'') (butlast tenNames))) < maxFixes"
    by (simp add: tenNames_def maxFixes_def)
  have p9: "Parse (callsEngine (butlast tenNames))
              \<lparr>tname = ''input template'', tfuncs = butlast tenNames, tbody = None\<rparr> nineCalls =
            Inr \<lparr>tname = ''input template'', tfuncs = butlast tenNames, tbody = Some nineCalls\<rparr>"
    by (simp add: callsEngine_def Parse_scripted undefinedFunction_def)
  from parse_ten_undefined_functions [OF n ten_chain] l10
  have a: "parse (callsEngine tenNames) tenCalls (newTemplate ''input template'') =
     Inr (\<lparr>tname = ''input template'', tfuncs = tenNames, tbody = None\<rparr>,
          map (stubDiagnostic tenCalls) (map (Pair ''1'') tenNames))" by blast
  from parse_ten_undefined_functions [OF n nine_chain] l9 p9
  have b: "parse (callsEngine (butlast tenNames)) nineCalls (newTemplate ''input template'') =
     Inr (\<lparr>tname = ''input template'', tfuncs = butlast tenNames, tbody = Some nineCalls\<rparr>,
          map (stubDiagnostic nineCalls) (map (Pair ''1'') (butlast tenNames)))" by blast
  from n ten_chain l10 a nine_chain l9 b show ?thesis by blast
qed

text \<open>
  C2 as stated fails at the text of ten calls: the top-level call returns ten
  diagnostics and a template that has no parsed body, although the text parses against
  that very template.
\<close>

theorem parse_ten_undefined_functions_counterexample:
  "(case parse (callsEngine tenNames) tenCalls (newTemplate ''input template'') of
      Inl e \<Rightarrow> False
    | Inr (t, tplErrs) \<Rightarrow>
        length tplErrs = 10 \<and> tbody t = None \<and>
        Parse (callsEngine tenNames) t tenCalls = Inr (t\<lparr>tbody := Some tenCalls\<rparr>))"
proof -
  have n: "list_all any_char ''input template''" "CHR '':'' \<notin> set ''input template''"
    by (simp_all add: any_char_def)
  have l10: "0 + int (length (map (Pair ''1'') tenNames)) = maxFixes"
    by (simp add: tenNames_def maxFixes_def)
  from stub_chain [OF n ten_chain, of 0] l10
  have "parse (callsEngine tenNames) tenCalls (newTemplate ''input template'') =
     Inr (\<lparr>tname = ''input template'', tfuncs = tenNames, tbody = None\<rparr>,
          map (stubDiagnostic tenCalls) (map (Pair ''1'') tenNames))"
    unfolding parse_def by blast
  then show ?thesis
    by (simp add: tenNames_def callsEngine_def Parse_scripted undefinedFunction_def)
qed

end
